(* ===== verification/Prelude.thy ===== *)
theory Prelude
  imports Main "HOL-Library.AList" "HOL-Library.Sublist"
begin

text \<open>
  Shared vocabulary of the development: the Python exceptions the modelled code can
  raise (a missing key, a subscript on a value that is no dictionary, a method of
  dictionaries called on another value, a local variable read before it is bound, a
  recursion deeper than the interpreter allows), results as sums (\<open>Inl\<close> is the raised
  exception), sequencing of fallible steps (\<open>and_then\<close>), the \<^verbatim>\<open>for\<close> loop over a
  list of keys whose body may raise or may recurse deeper than the recursion depth
  allows (\<open>for_each_comp\<close>, with \<open>None\<close> for the latter), and the facts about
  association lists (\<^const>\<open>map_of\<close>, \<^const>\<open>AList.update\<close>, \<^const>\<open>AList.delete\<close>)
  that the dictionary model rests on. Two collections carry the component proofs:
  \<open>py_defs\<close> (definitions that unfold to library terms) and \<open>py_simps\<close> (rewrite rules
  for the fallible operations).
\<close>

section \<open>Exceptions and results\<close>

named_theorems py_defs "definitions of the Python model that unfold to library terms"
named_theorems py_simps "rewrite rules for the fallible operations of the Python model"

datatype py_error = KeyError | TypeError | AttributeError | UnboundLocalError | RecursionError

type_synonym 'a result = "py_error + 'a"

abbreviation Raise :: "py_error \<Rightarrow> 'a result" where
  "Raise \<equiv> Inl"

abbreviation Return :: "'a \<Rightarrow> 'a result" where
  "Return \<equiv> Inr"

definition and_then :: "'a result \<Rightarrow> ('a \<Rightarrow> 'b result) \<Rightarrow> 'b result" where
  "and_then r f = (case r of Inl e \<Rightarrow> Inl e | Inr x \<Rightarrow> f x)"

fun for_each_comp :: "('s \<Rightarrow> 'k \<Rightarrow> 's result option) \<Rightarrow> 's \<Rightarrow> 'k list \<Rightarrow> 's result option" where
  "for_each_comp body s [] = Some (Return s)"
| "for_each_comp body s (k # ks) =
     (case body s k of
        None \<Rightarrow> None
      | Some (Inl e) \<Rightarrow> Some (Raise e)
      | Some (Inr s') \<Rightarrow> for_each_comp body s' ks)"

lemma and_then_Return [simp, py_simps]: "and_then (Return x) f = f x"
  by (simp add: and_then_def)

lemma and_then_Raise [simp, py_simps]: "and_then (Raise e) f = Raise e"
  by (simp add: and_then_def)

lemma and_then_eq_Return [py_simps]:
  "and_then r f = Return y \<longleftrightarrow> (\<exists>x. r = Return x \<and> f x = Return y)"
  by (cases r) simp_all

lemma and_then_eq_Raise [py_simps]:
  "and_then r f = Raise e \<longleftrightarrow> r = Raise e \<or> (\<exists>x. r = Return x \<and> f x = Raise e)"
  by (cases r) simp_all

lemma and_then_assoc:
  "and_then (and_then r f) g = and_then r (\<lambda>x. and_then (f x) g)"
  by (cases r) simp_all

lemma for_each_comp_step:
  "body s k = Some (Return s') \<Longrightarrow> for_each_comp body s (k # ks) = for_each_comp body s' ks"
  by simp

lemma for_each_comp_stuck: "body s k = None \<Longrightarrow> for_each_comp body s (k # ks) = None"
  by simp

section \<open>Association lists\<close>

lemma map_of_Some_keys: "map_of al k = Some v \<Longrightarrow> k \<in> fst ` set al"
  by (metis map_of_eq_None_iff option.distinct(1))

lemma keys_update [simp]: "fst ` set (AList.update k v al) = insert k (fst ` set al)"
  by (simp add: dom_update)

lemma keys_update_present:
  "k \<in> fst ` set al \<Longrightarrow> map fst (AList.update k v al) = map fst al"
  by (induction al) auto

lemma keys_update_absent:
  "k \<notin> fst ` set al \<Longrightarrow> map fst (AList.update k v al) = map fst al @ [k]"
  by (induction al) auto

lemma keys_delete [simp]: "map fst (AList.delete k al) = removeAll k (map fst al)"
  by (induction al) auto

lemma delete_absent [simp]: "k \<notin> fst ` set al \<Longrightarrow> AList.delete k al = al"
  by (induction al) auto

lemma update_absent: "k \<notin> fst ` set al \<Longrightarrow> AList.update k v al = al @ [(k, v)]"
  by (induction al) auto

lemma update_append_present:
  "k \<in> fst ` set al \<Longrightarrow> AList.update k v (al @ bl) = AList.update k v al @ bl"
  by (induction al) auto

lemma update_append_absent:
  "k \<notin> fst ` set al \<Longrightarrow> AList.update k v (al @ bl) = al @ AList.update k v bl"
  by (induction al) auto

lemma delete_append [simp]:
  "AList.delete k (al @ bl) = AList.delete k al @ AList.delete k bl"
  by (simp add: AList.delete_eq)

lemma map_of_append_absent:
  "k \<notin> fst ` set al \<Longrightarrow> map_of (al @ bl) k = map_of bl k"
  by (induction al) auto

lemma fst_comp_map_values [simp]: "fst \<circ> (\<lambda>(k, v). (k, f v)) = fst"
  by (auto simp: fun_eq_iff)

lemma map_values_update:
  "map (\<lambda>(k, v). (k, f v)) (AList.update k v al) =
   AList.update k (f v) (map (\<lambda>(k, v). (k, f v)) al)"
  by (induction al) auto

lemma update_same_value:
  "map_of al k = Some v \<Longrightarrow> AList.update k v al = al"
  by (induction al) (auto split: if_splits)

lemma subseq_keys_filter: "subseq (map fst (filter P al)) (map fst al)"
  by (induction al) auto

end
