(* ===== verification/Py_Value.thy ===== *)
theory Py_Value
  imports Prelude
begin

text \<open>
  The values the configuration guide handles and the dictionary operations it uses
  (\<^verbatim>\<open>src/manimlib/utils/init_config.py\<close>). A Python \<^verbatim>\<open>dict\<close> keeps its keys in
  insertion order and holds each key once, so it is an association list whose keys are
  distinct (\<open>wf_dict\<close>, at every level of nesting). \<open>d[k]\<close> is \<open>getitem\<close> (raising
  \<^verbatim>\<open>KeyError\<close> on a missing key), \<open>d[k] = v\<close> is \<open>setitem\<close> (replacing in place or
  appending), \<open>d.pop(k)\<close> is \<open>pop\<close>, \<open>list(d.keys())\<close> is \<open>keys\<close>. A chain of
  subscripts ending in an assignment, \<open>d[p1]...[pn][k] = v\<close>, is \<open>store\<close>: the inner
  dictionaries are objects shared with their parents, so the change is written back
  along the path. \<open>lookup\<close> reads along a path, \<open>leaves\<close> lists the paths to the
  leaves of a dictionary, \<open>shape_of\<close> is the key set, nesting and leaf types of a value. The four dictionary operations are stated over the type
  of the values a dictionary holds (\<open>'v entries\<close>), so that the same definitions and
  lemmas serve the dictionaries of values here and the dictionary objects of theory
  \<open>Heap\<close>. The last section states the contract of \<open>store\<close>: what is read
  back after it, and when it raises and with which exception.
\<close>

section \<open>Values and dictionaries\<close>

datatype pyval = PyStr string | PyBool bool | PyInt int | PyDict "(string \<times> pyval) list"

type_synonym dict = "(string \<times> pyval) list"

type_synonym 'v entries = "(string \<times> 'v) list"

definition keys :: "'v entries \<Rightarrow> string list" where
  "keys d = map fst d"

definition getitem :: "'v entries \<Rightarrow> string \<Rightarrow> 'v result" where
  "getitem d k = (case map_of d k of None \<Rightarrow> Raise KeyError | Some v \<Rightarrow> Return v)"

definition setitem :: "'v entries \<Rightarrow> string \<Rightarrow> 'v \<Rightarrow> 'v entries" where
  "setitem d k v = AList.update k v d"

definition pop :: "'v entries \<Rightarrow> string \<Rightarrow> ('v \<times> 'v entries) result" where
  "pop d k =
     (case map_of d k of None \<Rightarrow> Raise KeyError | Some v \<Rightarrow> Return (v, AList.delete k d))"

fun isinstance_dict :: "pyval \<Rightarrow> bool" where
  "isinstance_dict (PyDict d) = True"
| "isinstance_dict _ = False"

fun wf_dict :: "dict \<Rightarrow> bool" where
  "wf_dict [] = True"
| "wf_dict ((k, v) # rest) =
     (k \<notin> set (map fst rest) \<and> (case v of PyDict sub \<Rightarrow> wf_dict sub | _ \<Rightarrow> True)
      \<and> wf_dict rest)"

fun wf_val :: "pyval \<Rightarrow> bool" where
  "wf_val (PyDict d) = wf_dict d"
| "wf_val _ = True"

section \<open>Paths into nested dictionaries\<close>

fun lookup :: "pyval \<Rightarrow> string list \<Rightarrow> pyval option" where
  "lookup v [] = Some v"
| "lookup (PyDict d) (k # ks) = (case map_of d k of None \<Rightarrow> None | Some v \<Rightarrow> lookup v ks)"
| "lookup _ (k # ks) = None"

fun leaves :: "dict \<Rightarrow> string list list" where
  "leaves [] = []"
| "leaves ((k, v) # rest) =
     (case v of PyDict sub \<Rightarrow> map ((#) k) (leaves sub) | _ \<Rightarrow> [[k]]) @ leaves rest"

fun store :: "dict \<Rightarrow> string list \<Rightarrow> string \<Rightarrow> pyval \<Rightarrow> dict result" where
  "store d [] k v = Return (setitem d k v)"
| "store d (p # ps) k v =
     and_then (getitem d p) (\<lambda>sub.
       case sub of
         PyDict sd \<Rightarrow> and_then (store sd ps k v) (\<lambda>sd'. Return (setitem d p (PyDict sd')))
       | _ \<Rightarrow> Raise TypeError)"

section \<open>Shapes\<close>

datatype pytype = TStr | TBool | TInt

datatype shape = Leaf pytype | Node "(string \<times> shape) list"

fun shape_of :: "pyval \<Rightarrow> shape" where
  "shape_of (PyStr s) = Leaf TStr"
| "shape_of (PyBool b) = Leaf TBool"
| "shape_of (PyInt i) = Leaf TInt"
| "shape_of (PyDict d) = Node (map (\<lambda>(k, v). (k, shape_of v)) d)"

fun shape_lookup :: "shape \<Rightarrow> string list \<Rightarrow> shape option" where
  "shape_lookup sh [] = Some sh"
| "shape_lookup (Node ns) (k # ks) =
     (case map_of ns k of None \<Rightarrow> None | Some sh \<Rightarrow> shape_lookup sh ks)"
| "shape_lookup (Leaf t) (k # ks) = None"

section \<open>Dictionary operations\<close>

lemmas dict_defs [py_defs] = keys_def getitem_def setitem_def pop_def

lemma keys_simps [simp]:
  "keys [] = []"
  "keys ((k, v) # d) = k # keys d"
  "keys (d @ d') = keys d @ keys d'"
  by (simp_all add: keys_def)

lemma set_keys: "set (keys d) = fst ` set d"
  by (simp add: keys_def)

lemma getitem_Return [py_simps]: "getitem d k = Return v \<longleftrightarrow> map_of d k = Some v"
  by (simp add: getitem_def split: option.splits)

lemma getitem_Raise [py_simps]: "getitem d k = Raise e \<longleftrightarrow> e = KeyError \<and> k \<notin> set (keys d)"
  by (auto simp: getitem_def keys_def map_of_eq_None_iff split: option.splits
      dest: map_of_Some_keys)

lemma getitem_present: "k \<in> set (keys d) \<Longrightarrow> \<exists>v. getitem d k = Return v"
  by (cases "getitem d k") (auto simp: getitem_Raise)

lemma getitem_setitem [simp]:
  "getitem (setitem d k v) k' = (if k' = k then Return v else getitem d k')"
  by (simp add: getitem_def setitem_def update_conv')

lemma keys_setitem:
  "keys (setitem d k v) = (if k \<in> set (keys d) then keys d else keys d @ [k])"
  by (simp add: keys_def setitem_def keys_update_present keys_update_absent)

lemma set_keys_setitem [simp]: "set (keys (setitem d k v)) = insert k (set (keys d))"
  by (simp add: keys_def setitem_def)

lemma setitem_Cons:
  "setitem ((k', v') # d) k v = (if k' = k then (k, v) # d else (k', v') # setitem d k v)"
  by (simp add: setitem_def)

lemma pop_Return [py_simps]:
  "pop d k = Return (v, d') \<longleftrightarrow> map_of d k = Some v \<and> d' = AList.delete k d"
  by (auto simp: pop_def split: option.splits)

lemma pop_Raise [py_simps]: "pop d k = Raise e \<longleftrightarrow> e = KeyError \<and> k \<notin> set (keys d)"
  by (auto simp: pop_def keys_def map_of_eq_None_iff split: option.splits
      dest: map_of_Some_keys)

section \<open>Induction over nested dictionaries\<close>

lemma dict_induct [case_names Nil Leaf Dict]:
  assumes "P []"
    and "\<And>k v rest. \<not> isinstance_dict v \<Longrightarrow> P rest \<Longrightarrow> P ((k, v) # rest)"
    and "\<And>k sub rest. P sub \<Longrightarrow> P rest \<Longrightarrow> P ((k, PyDict sub) # rest)"
  shows "P d"
proof (induction d rule: wf_dict.induct)
  case 1
  show ?case by (rule assms(1))
next
  case (2 k v rest)
  then show ?case by (cases v) (simp_all add: assms(2,3))
qed

section \<open>Well-formed dictionaries\<close>

lemma wf_dict_distinct: "wf_dict d \<Longrightarrow> distinct (keys d)"
  by (induction d rule: wf_dict.induct) (auto simp: keys_def)

lemma wf_dict_iff:
  "wf_dict d \<longleftrightarrow> distinct (keys d) \<and> (\<forall>(k, v) \<in> set d. wf_val v)"
  by (induction d rule: wf_dict.induct) (auto simp: keys_def split: pyval.splits)

lemma wf_dict_append:
  "wf_dict (d @ d') \<longleftrightarrow> wf_dict d \<and> wf_dict d' \<and> set (keys d) \<inter> set (keys d') = {}"
  by (induction d rule: wf_dict.induct) (auto simp: keys_def)

lemma wf_dict_map_of: "wf_dict d \<Longrightarrow> map_of d k = Some v \<Longrightarrow> wf_val v"
  by (induction d rule: wf_dict.induct) (auto split: if_splits pyval.splits)

lemma wf_dict_setitem: "wf_dict d \<Longrightarrow> wf_val v \<Longrightarrow> wf_dict (setitem d k v)"
proof (induction d rule: wf_dict.induct)
  case 1
  then show ?case by (cases v) (simp_all add: setitem_def)
next
  case (2 k' v' rest)
  from "2.prems" have notin: "k' \<notin> set (keys rest)" and rest: "wf_dict rest"
    by (simp_all add: keys_def)
  show ?case
  proof (cases "k' = k")
    case True
    with "2.prems" show ?thesis by (cases v) (simp_all add: setitem_Cons)
  next
    case False
    from rest "2.prems"(2) have "wf_dict (setitem rest k v)" by (rule "2.IH"(2))
    moreover from notin False have "k' \<notin> set (keys (setitem rest k v))" by simp
    ultimately show ?thesis using False "2.prems"(1) by (simp add: setitem_Cons keys_def)
  qed
qed

lemma wf_dict_delete: "wf_dict d \<Longrightarrow> wf_dict (AList.delete k d)"
  by (induction d rule: wf_dict.induct) auto

lemma wf_dict_filter: "wf_dict d \<Longrightarrow> wf_dict (filter P d)"
  by (induction d rule: wf_dict.induct) auto

section \<open>Reading and writing along a path\<close>

lemma lookup_Nil_Cons:
  "lookup (PyDict d) (k # ks) = (case map_of d k of None \<Rightarrow> None | Some v \<Rightarrow> lookup v ks)"
  by simp

lemma lookup_append:
  "lookup v (p @ q) = (case lookup v p of None \<Rightarrow> None | Some u \<Rightarrow> lookup u q)"
  by (induction v p rule: lookup.induct) (simp_all split: option.splits)

lemma store_Cons_Return:
  "store d (p # ps) k v = Return d' \<longleftrightarrow>
     (\<exists>sd sd'. map_of d p = Some (PyDict sd) \<and> store sd ps k v = Return sd' \<and>
        d' = setitem d p (PyDict sd'))"
proof (cases "map_of d p")
  case None
  then show ?thesis by (simp add: getitem_def)
next
  case (Some u)
  then show ?thesis
    by (cases u) (auto simp: getitem_def and_then_eq_Return)
qed

lemma store_Return_iff:
  "(\<exists>d'. store d path k v = Return d') \<longleftrightarrow> (\<exists>sd. lookup (PyDict d) path = Some (PyDict sd))"
proof (induction path arbitrary: d)
  case Nil
  show ?case by simp
next
  case (Cons p ps)
  show ?case
  proof (cases "map_of d p")
    case None
    then show ?thesis by (simp add: getitem_def)
  next
    case (Some u)
    show ?thesis
    proof (cases u)
      case (PyDict sd)
      with Some Cons.IH [of sd] show ?thesis
        by (cases "store sd ps k v") (auto simp: getitem_def)
    qed (use Some in \<open>cases ps; simp add: getitem_def\<close>)+
  qed
qed

lemma lookup_store_same:
  "store d path k v = Return d' \<Longrightarrow> lookup (PyDict d') (path @ [k]) = Some v"
proof (induction path arbitrary: d d')
  case Nil
  then show ?case by (auto simp: setitem_def update_conv')
next
  case (Cons p ps)
  from Cons.prems obtain sd sd' where sd: "map_of d p = Some (PyDict sd)"
    and sd': "store sd ps k v = Return sd'" and d': "d' = setitem d p (PyDict sd')"
    unfolding store_Cons_Return by blast
  from sd' have "lookup (PyDict sd') (ps @ [k]) = Some v" by (rule Cons.IH)
  with d' show ?case by (simp add: setitem_def update_conv')
qed

lemma shape_of_setitem:
  "map_of d k = Some u \<Longrightarrow> shape_of u = shape_of v \<Longrightarrow>
   shape_of (PyDict (setitem d k v)) = shape_of (PyDict d)"
proof -
  assume u: "map_of d k = Some u" and eq: "shape_of u = shape_of v"
  let ?f = "\<lambda>(k, v). (k, shape_of v)"
  from u have "map_of (map ?f d) k = Some (shape_of v)"
    by (simp add: map_of_map eq)
  then have "AList.update k (shape_of v) (map ?f d) = map ?f d"
    by (rule update_same_value)
  then show ?thesis by (simp add: setitem_def map_values_update)
qed

lemma store_shape:
  "lookup (PyDict d) (path @ [k]) = Some u \<Longrightarrow> shape_of u = shape_of v \<Longrightarrow>
   \<exists>d'. store d path k v = Return d' \<and> shape_of (PyDict d') = shape_of (PyDict d)"
proof (induction path arbitrary: d)
  case Nil
  then have "map_of d k = Some u" by (simp split: option.splits)
  from shape_of_setitem [OF this Nil.prems(2)] show ?case by simp
next
  case (Cons p ps)
  from Cons.prems(1) obtain w where w: "map_of d p = Some w"
    and look: "lookup w (ps @ [k]) = Some u"
    by (auto split: option.splits)
  from look obtain sd where sd: "w = PyDict sd" by (cases w; cases ps) simp_all
  from look sd Cons.prems(2) obtain sd' where sd': "store sd ps k v = Return sd'"
    and shape: "shape_of (PyDict sd') = shape_of (PyDict sd)"
    using Cons.IH [of sd] by blast
  from w sd have "map_of d p = Some (PyDict sd)" by simp
  from shape_of_setitem [OF this, of "PyDict sd'"] shape
  have "shape_of (PyDict (setitem d p (PyDict sd'))) = shape_of (PyDict d)" by simp
  with w sd sd' show ?case by (simp add: getitem_def)
qed

lemma shape_lookup_shape_of:
  "shape_lookup (shape_of v) p = map_option shape_of (lookup v p)"
proof (induction v p rule: lookup.induct)
  case (2 d k ks)
  then show ?case by (cases "map_of d k") (simp_all add: map_of_map)
qed simp_all

lemma shape_of_Leaf_TStr: "shape_of v = Leaf TStr \<longleftrightarrow> (\<exists>s. v = PyStr s)"
  by (cases v) simp_all

lemma shape_wf_dict:
  "shape_of (PyDict d) = shape_of (PyDict d') \<Longrightarrow> wf_dict d' \<Longrightarrow> wf_dict d"
proof (induction d arbitrary: d' rule: wf_dict.induct)
  case 1
  show ?case by simp
next
  case (2 k v rest)
  from "2.prems"(1) obtain v' rest' where d': "d' = (k, v') # rest'"
    and v: "shape_of v = shape_of v'" and rest: "shape_of (PyDict rest) = shape_of (PyDict rest')"
    by (cases d') auto
  from rest have "map fst (map (\<lambda>(k, v). (k, shape_of v)) rest) =
      map fst (map (\<lambda>(k, v). (k, shape_of v)) rest')" by simp
  then have keys: "map fst rest = map fst rest'" by simp
  from "2.prems"(2) d' have wf': "k \<notin> set (map fst rest')" "wf_val v'" "wf_dict rest'"
    by (simp_all split: pyval.splits)
  from rest wf'(3) have "wf_dict rest" by (rule "2.IH"(2))
  moreover have "wf_val v"
  proof (cases v)
    case (PyDict sub)
    with v obtain sub' where v': "v' = PyDict sub'" by (cases v') simp_all
    with PyDict v wf'(2) "2.IH"(1) [of sub sub'] show ?thesis by simp
  qed simp_all
  ultimately show ?case using wf'(1) keys by (cases v) simp_all
qed

lemma wf_dict_store:
  "wf_dict d \<Longrightarrow> wf_val v \<Longrightarrow> store d path k v = Return d' \<Longrightarrow> wf_dict d'"
proof (induction path arbitrary: d d')
  case Nil
  then show ?case by (auto simp: wf_dict_setitem)
next
  case (Cons p ps)
  from Cons.prems(3) obtain sd sd' where sd: "map_of d p = Some (PyDict sd)"
    and sd': "store sd ps k v = Return sd'" and d': "d' = setitem d p (PyDict sd')"
    unfolding store_Cons_Return by blast
  from Cons.prems(1) sd have "wf_dict sd" by (auto dest: wf_dict_map_of)
  from this Cons.prems(2) sd' have "wf_dict sd'" by (rule Cons.IH)
  with Cons.prems(1) d' show ?case by (simp add: wf_dict_setitem)
qed

section \<open>The contract of an assignment behind subscripts\<close>

lemma lookup_setitem:
  "lookup (PyDict (setitem d k v)) (k' # ks) =
     (if k' = k then lookup v ks else lookup (PyDict d) (k' # ks))"
  by (simp add: setitem_def update_conv')

lemma lookup_leaf: "\<not> isinstance_dict w \<Longrightarrow> lookup w ks = (if ks = [] then Some w else None)"
  by (cases w; cases ks) simp_all

lemma lookup_store_other:
  "store d path k v = Return d' \<Longrightarrow> \<not> prefix q (path @ [k]) \<Longrightarrow> \<not> prefix (path @ [k]) q \<Longrightarrow>
   lookup (PyDict d') q = lookup (PyDict d) q"
proof (induction path arbitrary: d d' q)
  case Nil
  then obtain k' ks where q: "q = k' # ks" and "k' \<noteq> k" by (cases q) auto
  moreover from Nil.prems(1) have "d' = setitem d k v" by simp
  ultimately show ?case by (simp add: lookup_setitem del: lookup.simps)
next
  case (Cons p ps)
  from Cons.prems(1) obtain sd sd' where sd: "map_of d p = Some (PyDict sd)"
    and sd': "store sd ps k v = Return sd'" and d': "d' = setitem d p (PyDict sd')"
    unfolding store_Cons_Return by blast
  from Cons.prems(2) obtain k' ks where q: "q = k' # ks" by (cases q) auto
  show ?case
  proof (cases "k' = p")
    case True
    with Cons.prems q have "\<not> prefix ks (ps @ [k])" "\<not> prefix (ps @ [k]) ks" by simp_all
    from Cons.IH [OF sd' this] True q d' sd show ?thesis
      by (simp add: lookup_setitem del: lookup.simps) simp
  next
    case False
    with q d' show ?thesis by (simp add: lookup_setitem del: lookup.simps)
  qed
qed

text \<open>
  C18. Round trip of an assignment behind subscripts: after \<^verbatim>\<open>d[p1]...[pn][k] = v\<close> has
  returned, reading along \<open>p1, ..., pn, k\<close> finds \<open>v\<close>, and reading along any path that
  neither leads to the assigned entry nor passes through it finds what was there before.
\<close>
theorem store_lookup_roundtrip:
  assumes "store d path k v = Return d'"
    and "\<not> prefix q (path @ [k])" and "\<not> prefix (path @ [k]) q"
  shows "lookup (PyDict d') (path @ [k]) = Some v \<and>
     lookup (PyDict d') q = lookup (PyDict d) q"
  using assms by (simp add: lookup_store_same lookup_store_other del: lookup.simps)

theorem store_lookup_roundtrip_witness:
  "store [(''style'', PyDict [(''font'', PyStr ''Consolas'')]), (''fps'', PyInt 30)]
     [''style''] ''font'' (PyStr ''Arial'') =
     Return [(''style'', PyDict [(''font'', PyStr ''Arial'')]), (''fps'', PyInt 30)] \<and>
   lookup (PyDict [(''style'', PyDict [(''font'', PyStr ''Arial'')]), (''fps'', PyInt 30)])
     [''style'', ''font''] = Some (PyStr ''Arial'') \<and>
   lookup (PyDict [(''style'', PyDict [(''font'', PyStr ''Arial'')]), (''fps'', PyInt 30)])
     [''fps''] = Some (PyInt 30)"
  using store_lookup_roundtrip
    [of "[(''style'', PyDict [(''font'', PyStr ''Consolas'')]), (''fps'', PyInt 30)]"
      "[''style'']" "''font''" "PyStr ''Arial''"
      "[(''style'', PyDict [(''font'', PyStr ''Arial'')]), (''fps'', PyInt 30)]" "[''fps'']"]
  by (simp add: getitem_def setitem_def)

text \<open>
  C19. When an assignment behind subscripts raises: exactly when the chain of subscripts
  fails at some position, with \<^verbatim>\<open>KeyError\<close> when the dictionary reached there lacks
  the next key and with \<^verbatim>\<open>TypeError\<close> when the value under the next key is not a
  dictionary.
\<close>
theorem store_raises:
  "store d path k v = Raise e \<longleftrightarrow>
     (\<exists>i<length path.
        case lookup (PyDict d) (take i path) of
          Some (PyDict sd) \<Rightarrow>
            (case map_of sd (path ! i) of
               None \<Rightarrow> e = KeyError
             | Some u \<Rightarrow> \<not> isinstance_dict u \<and> e = TypeError)
        | _ \<Rightarrow> False)"
proof (induction path arbitrary: d)
  case Nil
  show ?case by simp
next
  case (Cons p ps)
  show ?case
  proof (cases "map_of d p")
    case None
    then show ?thesis by (auto simp: getitem_def Ex_less_Suc2)
  next
    case (Some w)
    show ?thesis
    proof (cases w)
      case (PyDict sd)
      have "store d (p # ps) k v = Raise e \<longleftrightarrow> store sd ps k v = Raise e"
        using Some PyDict by (cases "store sd ps k v") (auto simp: getitem_def)
      with Cons.IH [of sd] Some PyDict show ?thesis
        by (simp add: Ex_less_Suc2 cong: option.case_cong pyval.case_cong)
    qed (use Some in \<open>auto simp: getitem_def Ex_less_Suc2 lookup_leaf\<close>)
  qed
qed

lemma store_raises_example:
  "store [(''style'', PyDict [(''font'', PyStr ''Consolas'')]), (''fps'', PyInt 30)]
     [''style'', ''font''] ''size'' (PyInt 12) = Raise TypeError \<and>
   store [(''style'', PyDict [(''font'', PyStr ''Consolas'')]), (''fps'', PyInt 30)]
     [''styles''] ''font'' (PyStr ''Arial'') = Raise KeyError"
  by (simp add: getitem_def)

end
