(* ===== verification/Remove_Empty.thy ===== *)
theory Remove_Empty
  imports Py_Value
begin

text \<open>
  The pruning routine \<^verbatim>\<open>remove_empty_value\<close> of
  \<^verbatim>\<open>src/manimlib/utils/init_config.py\<close> (lines 27 to 32). The Python routine changes
  its argument in place and returns nothing; the model returns the dictionary it leaves
  behind. \<open>remove_empty_value\<close> is the routine read as a recursion over the entries, the
  reference the other readings are compared with. \<open>remove_empty_loop\<close> is the routine
  as the source runs it: the \<^verbatim>\<open>for\<close> loop over the snapshot
  \<^verbatim>\<open>list(dictionary.keys())\<close>, whose body \<open>visit\<close> looks the key up, pops it when
  its value is the empty string and otherwise, when the value is a dictionary, calls the
  routine on it and keeps what the call leaves behind. The recursion of the loop follows
  the values found at run time, so it takes the depth of the recursion as fuel; \<open>None\<close>
  stands for a call nested deeper than the fuel, and \<open>depth\<close> says how much fuel a
  dictionary needs. The lemmas show that the loop returns exactly when the fuel is at
  least the depth, that it then leaves what the recursive reading computes, and that the
  result holds no empty string at any depth, keeps every nested dictionary, and is a
  fixed point.
\<close>

section \<open>The routine\<close>

fun remove_empty_value :: "dict \<Rightarrow> dict" where
  "remove_empty_value [] = []"
| "remove_empty_value ((key, v) # rest) =
     (if v = PyStr [] then remove_empty_value rest
      else (case v of
              PyDict sub \<Rightarrow> (key, PyDict (remove_empty_value sub)) # remove_empty_value rest
            | _ \<Rightarrow> (key, v) # remove_empty_value rest))"

definition visit :: "(dict \<Rightarrow> dict result option) \<Rightarrow> dict \<Rightarrow> string \<Rightarrow> dict result option" where
  "visit recurse dictionary key =
     (case getitem dictionary key of
        Inl e \<Rightarrow> Some (Raise e)
      | Inr v \<Rightarrow>
          if v = PyStr [] then Some (and_then (pop dictionary key) (\<lambda>(_, d'). Return d'))
          else (case v of
                  PyDict sub \<Rightarrow>
                    (case recurse sub of
                       None \<Rightarrow> None
                     | Some (Inl e) \<Rightarrow> Some (Raise e)
                     | Some (Inr sub') \<Rightarrow> Some (Return (setitem dictionary key (PyDict sub'))))
                | _ \<Rightarrow> Some (Return dictionary)))"

primrec remove_empty_loop :: "nat \<Rightarrow> dict \<Rightarrow> dict result option" where
  "remove_empty_loop 0 dictionary = None"
| "remove_empty_loop (Suc n) dictionary =
     for_each_comp (visit (remove_empty_loop n)) dictionary (keys dictionary)"

fun depth :: "dict \<Rightarrow> nat" where
  "depth [] = 1"
| "depth ((k, v) # rest) =
     max (case v of PyDict sub \<Rightarrow> Suc (depth sub) | _ \<Rightarrow> 1) (depth rest)"

section \<open>What the result looks like\<close>

fun no_empty_str :: "dict \<Rightarrow> bool" where
  "no_empty_str [] = True"
| "no_empty_str ((k, v) # rest) =
     (v \<noteq> PyStr [] \<and> (case v of PyDict sub \<Rightarrow> no_empty_str sub | _ \<Rightarrow> True)
      \<and> no_empty_str rest)"

fun prune_val :: "pyval \<Rightarrow> pyval" where
  "prune_val (PyDict d) = PyDict (remove_empty_value d)"
| "prune_val v = v"

definition kept :: "string \<times> pyval \<Rightarrow> bool" where
  "kept kv = (snd kv \<noteq> PyStr [])"

section \<open>Basic facts\<close>

lemma remove_empty_value_Cons:
  "remove_empty_value ((k, v) # rest) =
     (if v = PyStr [] then remove_empty_value rest else (k, prune_val v) # remove_empty_value rest)"
  by (cases v) simp_all

declare remove_empty_value.simps(2) [simp del]
declare remove_empty_value_Cons [simp]

lemma remove_empty_value_map_filter:
  "remove_empty_value d = map (\<lambda>(k, v). (k, prune_val v)) (filter kept d)"
  by (induction d) (auto simp: kept_def)

lemma remove_empty_value_append [simp]:
  "remove_empty_value (d @ d') = remove_empty_value d @ remove_empty_value d'"
  by (simp add: remove_empty_value_map_filter)

lemma keys_remove_empty_value: "keys (remove_empty_value d) = keys (filter kept d)"
  by (simp add: remove_empty_value_map_filter keys_def case_prod_unfold)

lemma set_keys_remove_empty_value: "set (keys (remove_empty_value d)) \<subseteq> set (keys d)"
  by (subst keys_remove_empty_value) (auto simp: keys_def)

lemma prune_val_eq_empty [simp]: "prune_val v = PyStr [] \<longleftrightarrow> v = PyStr []"
  by (cases v) simp_all

lemma prune_val_leaf [simp]: "\<not> isinstance_dict v \<Longrightarrow> prune_val v = v"
  by (cases v) simp_all

lemma isinstance_dict_prune_val [simp]: "isinstance_dict (prune_val v) = isinstance_dict v"
  by (cases v) simp_all

lemma map_of_remove_empty_value:
  "distinct (keys d) \<Longrightarrow>
   map_of (remove_empty_value d) k =
     (case map_of d k of
        None \<Rightarrow> None
      | Some v \<Rightarrow> if v = PyStr [] then None else Some (prune_val v))"
proof (induction d)
  case Nil
  show ?case by simp
next
  case (Cons kv rest)
  obtain key v where kv: "kv = (key, v)" by (cases kv)
  from Cons.prems kv have notin: "key \<notin> set (keys rest)" and dist: "distinct (keys rest)"
    by simp_all
  from notin have absent: "map_of rest key = None"
    by (simp add: map_of_eq_None_iff set_keys)
  have absent': "map_of (remove_empty_value rest) key = None"
    using notin set_keys_remove_empty_value [of rest]
    by (auto simp: map_of_eq_None_iff set_keys [symmetric])
  from Cons.IH [OF dist] absent absent' show ?case
    by (simp add: kv)
qed

lemma lookup_prune_val:
  "wf_val v \<Longrightarrow>
   lookup (prune_val v) ks =
     (case lookup v ks of
        None \<Rightarrow> None
      | Some u \<Rightarrow> if ks \<noteq> [] \<and> u = PyStr [] then None else Some (prune_val u))"
proof (induction ks arbitrary: v)
  case Nil
  show ?case by simp
next
  case (Cons k ks)
  show ?case
  proof (cases v)
    case (PyDict d)
    with Cons.prems have wf: "wf_dict d" by simp
    show ?thesis
    proof (cases "map_of d k")
      case None
      with wf PyDict show ?thesis
        by (simp add: map_of_remove_empty_value wf_dict_distinct)
    next
      case (Some u)
      from wf Some have "wf_val u" by (rule wf_dict_map_of)
      then have IH: "lookup (prune_val u) ks =
          (case lookup u ks of None \<Rightarrow> None
           | Some w \<Rightarrow> if ks \<noteq> [] \<and> w = PyStr [] then None else Some (prune_val w))"
        by (rule Cons.IH)
      show ?thesis
      proof (cases "u = PyStr []")
        case True
        with wf PyDict Some show ?thesis
          by (cases ks) (simp_all add: map_of_remove_empty_value wf_dict_distinct)
      next
        case False
        with wf PyDict Some IH show ?thesis
          by (cases ks)
            (simp_all add: map_of_remove_empty_value wf_dict_distinct split: option.splits)
      qed
    qed
  qed simp_all
qed

lemma wf_dict_remove_empty_value_aux: "wf_dict d \<Longrightarrow> wf_dict (remove_empty_value d)"
proof (induction d rule: dict_induct)
  case Nil
  show ?case by simp
next
  case (Leaf k v rest)
  from Leaf.prems have "k \<notin> set (keys rest)" by (simp add: set_keys)
  with set_keys_remove_empty_value [of rest] have "k \<notin> set (keys (remove_empty_value rest))"
    by blast
  with Leaf show ?case by (cases v) (simp_all add: set_keys)
next
  case (Dict k sub rest)
  from Dict.prems have "k \<notin> set (keys rest)" by (simp add: set_keys)
  with set_keys_remove_empty_value [of rest] have "k \<notin> set (keys (remove_empty_value rest))"
    by blast
  with Dict show ?case by (simp add: set_keys)
qed

lemma remove_empty_value_no_empty_str_aux: "no_empty_str (remove_empty_value d)"
  by (induction d rule: dict_induct) (auto split: pyval.splits)

lemma no_empty_str_map_of:
  "no_empty_str d \<Longrightarrow> map_of d k = Some v \<Longrightarrow>
   v \<noteq> PyStr [] \<and> (case v of PyDict sub \<Rightarrow> no_empty_str sub | _ \<Rightarrow> True)"
  by (induction d rule: no_empty_str.induct) (auto split: if_splits)

lemma no_empty_str_lookup:
  "no_empty_str d \<Longrightarrow> lookup (PyDict d) (k # ks) \<noteq> Some (PyStr [])"
proof (induction ks arbitrary: d k)
  case Nil
  then show ?case by (auto dest: no_empty_str_map_of split: option.splits)
next
  case (Cons k' ks)
  show ?case
  proof (cases "map_of d k")
    case None
    then show ?thesis by simp
  next
    case (Some v)
    with Cons.prems no_empty_str_map_of [of d k v] Cons.IH show ?thesis
      by (cases v) simp_all
  qed
qed

lemma no_empty_str_fixpoint: "no_empty_str d \<Longrightarrow> remove_empty_value d = d"
  by (induction d rule: dict_induct) (auto split: pyval.splits)

lemma lookup_pruned:
  assumes "wf_dict d"
  shows "lookup (PyDict (remove_empty_value d)) (k # ks) =
     (case lookup (PyDict d) (k # ks) of
        None \<Rightarrow> None
      | Some u \<Rightarrow> if u = PyStr [] then None else Some (prune_val u))"
  using assms lookup_prune_val [of "PyDict d" "k # ks"] by (simp cong: option.case_cong)

section \<open>The loop of the source\<close>

lemma depth_pos: "0 < depth d"
  by (induction d rule: dict_induct) (auto split: pyval.splits)

lemma depth_Cons_le:
  "depth ((k, v) # rest) \<le> Suc n \<longleftrightarrow>
     (case v of PyDict sub \<Rightarrow> depth sub \<le> n | _ \<Rightarrow> True) \<and> depth rest \<le> Suc n"
  by (cases v) simp_all

lemma depth_le_Suc:
  "depth d \<le> Suc n \<longleftrightarrow>
     (\<forall>(k, v) \<in> set d. case v of PyDict sub \<Rightarrow> depth sub \<le> n | _ \<Rightarrow> True)"
  by (induction d) (auto simp: depth_Cons_le split: pyval.splits)

lemma item_current:
  assumes "key \<notin> set (keys seen)" and "key \<notin> set (keys rest)"
  shows "getitem (seen @ (key, v) # rest) key = Return v"
    and "pop (seen @ (key, v) # rest) key = Return (v, seen @ rest)"
    and "setitem (seen @ (key, v) # rest) key w = seen @ (key, w) # rest"
proof -
  from assms(1) show get: "getitem (seen @ (key, v) # rest) key = Return v"
    by (simp add: getitem_def map_of_append_absent set_keys del: map_of_append)
  from assms(1) show "setitem (seen @ (key, v) # rest) key w = seen @ (key, w) # rest"
    by (simp add: setitem_def update_append_absent set_keys)
  from assms get show "pop (seen @ (key, v) # rest) key = Return (v, seen @ rest)"
    by (simp add: pop_Return getitem_Return set_keys del: map_of_append)
qed

lemma visit_current:
  assumes "key \<notin> set (keys seen)" and "key \<notin> set (keys rest)"
  shows "visit recurse (seen @ (key, v) # rest) key =
     (if v = PyStr [] then Some (Return (seen @ rest))
      else (case v of
              PyDict sub \<Rightarrow>
                (case recurse sub of
                   None \<Rightarrow> None
                 | Some (Inl e) \<Rightarrow> Some (Raise e)
                 | Some (Inr sub') \<Rightarrow> Some (Return (seen @ (key, PyDict sub') # rest)))
            | _ \<Rightarrow> Some (Return (seen @ (key, v) # rest))))"
  unfolding visit_def item_current [OF assms]
  by (simp add: item_current [OF assms] split: pyval.splits option.splits sum.splits)

lemma for_each_visit:
  assumes recurse: "\<And>sub. wf_dict sub \<Longrightarrow>
      recurse sub = (if depth sub \<le> n then Some (Return (remove_empty_value sub)) else None)"
  shows "distinct (keys (seen @ todo)) \<Longrightarrow> wf_dict todo \<Longrightarrow>
     for_each_comp (visit recurse) (seen @ todo) (keys todo) =
       (if depth todo \<le> Suc n then Some (Return (seen @ remove_empty_value todo)) else None)"
proof (induction todo arbitrary: seen)
  case Nil
  show ?case by simp
next
  case (Cons kv rest)
  obtain key v where kv: "kv = (key, v)" by (cases kv)
  from Cons.prems kv have notin: "key \<notin> set (keys seen)" "key \<notin> set (keys rest)"
    and wf: "wf_val v" "wf_dict rest"
    by (auto simp: set_keys split: pyval.splits)
  note visit = visit_current [OF notin, of recurse v]
  show ?case
  proof (cases "v = PyStr []")
    case True
    from Cons.prems kv have "distinct (keys (seen @ rest))" by simp
    from Cons.IH [OF this wf(2)] True visit show ?thesis
      by (simp add: kv depth_Cons_le)
  next
    case False
    from Cons.prems kv have "distinct (keys ((seen @ [(key, prune_val v)]) @ rest))" by simp
    from Cons.IH [OF this wf(2)] False visit wf(1) show ?thesis
      by (cases v) (simp_all add: kv depth_Cons_le recurse)
  qed
qed

lemma remove_empty_loop_exact:
  "wf_dict d \<Longrightarrow>
   remove_empty_loop n d =
     (if depth d \<le> n then Some (Return (remove_empty_value d)) else None)"
proof (induction n arbitrary: d)
  case 0
  from depth_pos [of d] show ?case by simp
next
  case (Suc n)
  from for_each_visit [of "remove_empty_loop n" n "[]" d, OF Suc.IH] Suc.prems
  show ?case by (simp add: wf_dict_distinct)
qed

section \<open>Properties of the routine\<close>

text \<open>
  C11. Pruning is idempotent: pruning a pruned dictionary changes nothing, on every
  dictionary and at every depth.
\<close>
theorem remove_empty_value_idem:
  "remove_empty_value (remove_empty_value d) = remove_empty_value d"
  by (induction d rule: dict_induct) simp_all

text \<open>
  C4. After pruning, no dictionary anywhere in the tree holds a key whose value is the
  empty string, and so no path of keys into the result leads to the empty string.
\<close>
theorem remove_empty_value_no_empty_str:
  "no_empty_str (remove_empty_value d) \<and>
   lookup (PyDict (remove_empty_value d)) (k # ks) \<noteq> Some (PyStr [])"
  using remove_empty_value_no_empty_str_aux [of d]
  by (simp add: no_empty_str_lookup del: lookup.simps)

text \<open>
  C3. The loop of the source (a pass over the snapshot of the keys that looks each key
  up, pops it when its value is the empty string and calls the routine on it when it is
  a dictionary) returns exactly when the recursion depth allowed is at least the depth
  of the nesting, it then never raises and leaves exactly the dictionary that the
  recursive reading computes, at every level, whenever no dictionary of the tree holds
  a key twice, as no Python dictionary does. The depth of the argument is always enough.
\<close>
theorem remove_empty_loop_correct:
  assumes "wf_dict d"
  shows "remove_empty_loop n d =
       (if depth d \<le> n then Some (Return (remove_empty_value d)) else None) \<and>
     remove_empty_loop (depth d) d = Some (Return (remove_empty_value d))"
  using assms by (simp add: remove_empty_loop_exact)

theorem remove_empty_loop_correct_witness:
  "wf_dict [(''base'', PyStr []), (''subdirs'', PyDict [(''output'', PyStr [])]), (''fps'', PyInt 30)] \<and>
   remove_empty_loop 2
     [(''base'', PyStr []), (''subdirs'', PyDict [(''output'', PyStr [])]), (''fps'', PyInt 30)] =
   Some (Return [(''subdirs'', PyDict []), (''fps'', PyInt 30)]) \<and>
   remove_empty_loop 1
     [(''base'', PyStr []), (''subdirs'', PyDict [(''output'', PyStr [])]), (''fps'', PyInt 30)] =
   None"
  using remove_empty_loop_correct
    [of "[(''base'', PyStr []), (''subdirs'', PyDict [(''output'', PyStr [])]), (''fps'', PyInt 30)]" 2]
    remove_empty_loop_correct
    [of "[(''base'', PyStr []), (''subdirs'', PyDict [(''output'', PyStr [])]), (''fps'', PyInt 30)]" 1]
  by simp

text \<open>
  C32. The dictionaries that need no pruning are exactly the fixed points of the routine:
  it returns its argument unchanged if and only if no empty string occurs in it at any
  depth.
\<close>
theorem remove_empty_value_fixpoint_iff: "remove_empty_value d = d \<longleftrightarrow> no_empty_str d"
proof
  assume "remove_empty_value d = d"
  with remove_empty_value_no_empty_str_aux [of d] show "no_empty_str d" by simp
next
  assume "no_empty_str d"
  then show "remove_empty_value d = d" by (rule no_empty_str_fixpoint)
qed

text \<open>
  C21. Nested dictionaries are never removed, only pruned: the entries of the result
  whose value is a dictionary are the entries of the argument whose value is a
  dictionary, in the same order, each pruned; a dictionary that is or becomes empty
  stays as an empty dictionary.
\<close>
theorem remove_empty_value_keeps_dicts:
  "filter (isinstance_dict \<circ> snd) (remove_empty_value d) =
   map (\<lambda>(k, v). (k, prune_val v)) (filter (isinstance_dict \<circ> snd) d)"
  by (induction d rule: dict_induct) auto

text \<open>
  C20. What a reader finds along any path of keys after pruning: nothing where the
  argument had nothing or had the empty string, and otherwise the value the argument had
  there, pruned when it is a dictionary. In particular every value that is not the empty
  string is still found where it was.
\<close>
theorem lookup_remove_empty_value:
  assumes "wf_dict d"
  shows "lookup (PyDict (remove_empty_value d)) (k # ks) =
     (case lookup (PyDict d) (k # ks) of
        None \<Rightarrow> None
      | Some u \<Rightarrow> if u = PyStr [] then None else Some (prune_val u))"
  using assms by (rule lookup_pruned)

theorem lookup_remove_empty_value_witness:
  "lookup (PyDict (remove_empty_value
      [(''directories'', PyDict [(''base'', PyStr []), (''subdirs'', PyDict [(''output'', PyStr ''clips'')])])]))
     [''directories'', ''subdirs'', ''output''] = Some (PyStr ''clips'') \<and>
   lookup (PyDict (remove_empty_value
      [(''directories'', PyDict [(''base'', PyStr []), (''subdirs'', PyDict [(''output'', PyStr ''clips'')])])]))
     [''directories'', ''base''] = None"
  using lookup_remove_empty_value
    [of "[(''directories'', PyDict [(''base'', PyStr []), (''subdirs'', PyDict [(''output'', PyStr ''clips'')])])]"
      "''directories''" "[''subdirs'', ''output'']"]
  by simp

text \<open>
  C33. Pruning never adds or reorders keys: the keys of the result are a subsequence of
  the keys of the argument, and they are the keys whose value is not the empty string.
\<close>
theorem remove_empty_value_keys:
  "subseq (keys (remove_empty_value d)) (keys d) \<and>
   keys (remove_empty_value d) = keys (filter kept d)"
  by (simp add: keys_remove_empty_value) (simp add: keys_def subseq_keys_filter)

end
