(* ===== verification/Schema.thy ===== *)
theory Schema
  imports Remove_Empty
begin

text \<open>
  The record the configuration guide starts from: the dictionary literal bound to
  \<^verbatim>\<open>configuration\<close> at the head of \<^verbatim>\<open>init_customization\<close>
  (\<^verbatim>\<open>src/manimlib/utils/init_config.py\<close>, lines 36 to 67), key for key and in the
  order of the source. The lemmas evaluate it: it is a well-formed dictionary, four of
  its leaves hold the empty string, and pruning it removes exactly those four.
\<close>

section \<open>The initial record\<close>

definition initial_configuration :: dict where
  "initial_configuration =
    [(''directories'', PyDict
        [(''mirror_module_path'', PyBool False),
         (''base'', PyStr ''''),
         (''subdirs'', PyDict
            [(''output'', PyStr ''videos''),
             (''raster_images'', PyStr ''raster_images''),
             (''vector_images'', PyStr ''vector_images''),
             (''sounds'', PyStr ''sounds''),
             (''data'', PyStr ''data''),
             (''downloads'', PyStr ''downloads'')])]),
     (''universal_import_line'', PyStr ''from manimlib import *''),
     (''style'', PyDict
        [(''tex_template'', PyStr ''''),
         (''font'', PyStr ''Consolas''),
         (''background_color'', PyStr '''')]),
     (''window_position'', PyStr ''UR''),
     (''window_monitor'', PyInt 0),
     (''full_screen'', PyBool False),
     (''break_into_partial_movies'', PyBool False),
     (''camera_resolutions'', PyDict
        [(''low'', PyStr ''854x480''),
         (''medium'', PyStr ''1280x720''),
         (''high'', PyStr ''1920x1080''),
         (''4k'', PyStr ''3840x2160''),
         (''default_resolution'', PyStr '''')]),
     (''fps'', PyInt 30)]"

definition schema :: shape where
  "schema = shape_of (PyDict initial_configuration)"

definition empty_leaves :: "string list list" where
  "empty_leaves =
    [[''directories'', ''base''], [''style'', ''tex_template''],
     [''style'', ''background_color''], [''camera_resolutions'', ''default_resolution'']]"

section \<open>Evaluating the record\<close>

lemma wf_initial_configuration [simp]: "wf_dict initial_configuration"
  by (simp add: initial_configuration_def)

lemma keys_initial_configuration:
  "keys initial_configuration =
    [''directories'', ''universal_import_line'', ''style'', ''window_position'',
     ''window_monitor'', ''full_screen'', ''break_into_partial_movies'',
     ''camera_resolutions'', ''fps'']"
  by (simp add: initial_configuration_def)

lemma schema_eq:
  "schema =
    Node
     [(''directories'', Node
        [(''mirror_module_path'', Leaf TBool),
         (''base'', Leaf TStr),
         (''subdirs'', Node
            [(''output'', Leaf TStr), (''raster_images'', Leaf TStr),
             (''vector_images'', Leaf TStr), (''sounds'', Leaf TStr),
             (''data'', Leaf TStr), (''downloads'', Leaf TStr)])]),
      (''universal_import_line'', Leaf TStr),
      (''style'', Node
        [(''tex_template'', Leaf TStr), (''font'', Leaf TStr),
         (''background_color'', Leaf TStr)]),
      (''window_position'', Leaf TStr),
      (''window_monitor'', Leaf TInt),
      (''full_screen'', Leaf TBool),
      (''break_into_partial_movies'', Leaf TBool),
      (''camera_resolutions'', Node
        [(''low'', Leaf TStr), (''medium'', Leaf TStr), (''high'', Leaf TStr),
         (''4k'', Leaf TStr), (''default_resolution'', Leaf TStr)]),
      (''fps'', Leaf TInt)]"
  by (simp add: schema_def initial_configuration_def)

lemma schema_lookup:
  assumes "shape_of (PyDict d) = schema" and "shape_lookup schema p = Some sh"
  shows "\<exists>u. lookup (PyDict d) p = Some u \<and> shape_of u = sh"
proof -
  from assms have "map_option shape_of (lookup (PyDict d) p) = Some sh"
    by (simp only: shape_lookup_shape_of [symmetric])
  then show ?thesis by (cases "lookup (PyDict d) p") auto
qed

section \<open>Pruning the initial record\<close>

lemma empty_leaves_initial:
  "list_all (\<lambda>p. lookup (PyDict initial_configuration) p = Some (PyStr [])) empty_leaves"
  by (simp add: initial_configuration_def empty_leaves_def)

text \<open>
  Pruning the initial record removes its four empty leaves (the base directory, the TeX
  template, the background colour and the default resolution) and keeps every other
  entry, in order.
\<close>

lemma remove_empty_value_initial:
  "remove_empty_value initial_configuration =
    [(''directories'', PyDict
        [(''mirror_module_path'', PyBool False),
         (''subdirs'', PyDict
            [(''output'', PyStr ''videos''),
             (''raster_images'', PyStr ''raster_images''),
             (''vector_images'', PyStr ''vector_images''),
             (''sounds'', PyStr ''sounds''),
             (''data'', PyStr ''data''),
             (''downloads'', PyStr ''downloads'')])]),
     (''universal_import_line'', PyStr ''from manimlib import *''),
     (''style'', PyDict [(''font'', PyStr ''Consolas'')]),
     (''window_position'', PyStr ''UR''),
     (''window_monitor'', PyInt 0),
     (''full_screen'', PyBool False),
     (''break_into_partial_movies'', PyBool False),
     (''camera_resolutions'', PyDict
        [(''low'', PyStr ''854x480''),
         (''medium'', PyStr ''1280x720''),
         (''high'', PyStr ''1920x1080''),
         (''4k'', PyStr ''3840x2160'')]),
     (''fps'', PyInt 30)]"
  by (simp add: initial_configuration_def)

end
