(* ===== verification/Wizard.thy ===== *)
theory Wizard
  imports Schema
begin

text \<open>
  The configuration guide \<^verbatim>\<open>init_customization\<close> of
  \<^verbatim>\<open>src/manimlib/utils/init_config.py\<close> (lines 35 to 164) as a machine that waits
  at a prompt, takes what the prompt returns as an event and runs the statements up to
  the next prompt. An event is what \<^verbatim>\<open>Prompt.ask\<close> or \<^verbatim>\<open>Confirm.ask\<close> hands
  back: a string, a yes or no, or the \<^verbatim>\<open>KeyboardInterrupt\<close> it raises. The state holds
  the local variables \<^verbatim>\<open>configuration\<close> and \<^verbatim>\<open>scope\<close>, what was printed on the
  console, and the files on disk; a file's content is the dictionary dumped into it.
  \<open>answer\<close> has one equation per prompt of the source, \<open>write_config\<close> is the tail of
  the \<^verbatim>\<open>try\<close> block after the confirmation, \<open>step\<close> the dispatch on the event, and
  \<open>init_customization\<close> the run from the start state. The last sections give the
  guide in closed form, for the proofs: the leaf each prompt assigns (\<open>target\<close>), the
  program point and the messages that follow it (\<open>next_pc\<close>, \<open>prints\<close>), the number
  of prompts that remain (\<open>remaining\<close>), the events that finish the guide from a
  program point (\<open>completion\<close>), and the states of all runs (\<open>reachable\<close>).
\<close>

section \<open>Prompts\<close>

datatype question =
    Scope | Base | Output | RasterImages | VectorImages | Sounds | Downloads
  | TexTemplate | BackgroundColor | DefaultResolution

fun ask_choices :: "question \<Rightarrow> string list" where
  "ask_choices Scope = [''global'', ''local'']"
| "ask_choices DefaultResolution = [''low'', ''medium'', ''high'', ''ultra_high'']"
| "ask_choices _ = []"

fun ask_default :: "question \<Rightarrow> string" where
  "ask_default Scope = ''local''"
| "ask_default Base = ''''"
| "ask_default Output = ''videos''"
| "ask_default RasterImages = ''raster_images''"
| "ask_default VectorImages = ''vector_images''"
| "ask_default Sounds = ''sounds''"
| "ask_default Downloads = ''downloads''"
| "ask_default TexTemplate = ''default''"
| "ask_default BackgroundColor = ''#333333''"
| "ask_default DefaultResolution = ''high''"

definition questions :: "question list" where
  "questions =
    [Scope, Base, Output, RasterImages, VectorImages, Sounds, Downloads,
     TexTemplate, BackgroundColor, DefaultResolution]"

section \<open>State\<close>

datatype pc = Asking question | Confirming | Written | Cancelled | Crashed py_error

datatype event = KeyboardInterrupt | Reply string | Confirm bool

datatype message =
    Guide_Rule | Heading string | Qualities_Table
  | Success string | Modify_Hint string | Exit_Guide

record env =
  manim_dir :: string
  cwd :: string

record wstate =
  pc :: pc
  configuration :: dict
  scope :: "string option"
  console :: "message list"
  files :: "string \<rightharpoonup> dict"

definition start :: "(string \<rightharpoonup> dict) \<Rightarrow> wstate" where
  "start fs =
     \<lparr>pc = Asking Scope, configuration = initial_configuration, scope = None,
      console = [Guide_Rule], files = fs\<rparr>"

section \<open>Statements\<close>

fun crashed :: "pc \<Rightarrow> bool" where
  "crashed (Crashed e) = True"
| "crashed _ = False"

fun exec :: "(wstate \<Rightarrow> wstate) list \<Rightarrow> wstate \<Rightarrow> wstate" where
  "exec [] s = s"
| "exec (f # fs) s = (if crashed (pc s) then s else exec fs (f s))"

definition console_print :: "message \<Rightarrow> wstate \<Rightarrow> wstate" where
  "console_print m s = s\<lparr>console := console s @ [m]\<rparr>"

definition goto :: "pc \<Rightarrow> wstate \<Rightarrow> wstate" where
  "goto p s = s\<lparr>pc := p\<rparr>"

definition subscript :: "string \<Rightarrow> wstate \<Rightarrow> wstate" where
  "subscript k s =
     (case getitem (configuration s) k of Inl e \<Rightarrow> s\<lparr>pc := Crashed e\<rparr> | Inr v \<Rightarrow> s)"

definition assign :: "string list \<Rightarrow> string \<Rightarrow> string \<Rightarrow> wstate \<Rightarrow> wstate" where
  "assign path k v s =
     (case store (configuration s) path k (PyStr v) of
        Inl e \<Rightarrow> s\<lparr>pc := Crashed e\<rparr>
      | Inr c \<Rightarrow> s\<lparr>configuration := c\<rparr>)"

section \<open>The prompts of the guide\<close>

fun answer :: "question \<Rightarrow> string \<Rightarrow> wstate \<Rightarrow> wstate" where
  "answer Scope v =
     exec [(\<lambda>s. s\<lparr>scope := Some v\<rparr>), console_print (Heading ''Directories:''),
           subscript ''directories'', goto (Asking Base)]"
| "answer Base v =
     exec [assign [''directories''] ''base'' v, goto (Asking Output)]"
| "answer Output v =
     exec [assign [''directories'', ''subdirs''] ''output'' v, goto (Asking RasterImages)]"
| "answer RasterImages v =
     exec [assign [''directories'', ''subdirs''] ''raster_images'' v, goto (Asking VectorImages)]"
| "answer VectorImages v =
     exec [assign [''directories'', ''subdirs''] ''vector_images'' v, goto (Asking Sounds)]"
| "answer Sounds v =
     exec [assign [''directories'', ''subdirs''] ''sounds'' v, goto (Asking Downloads)]"
| "answer Downloads v =
     exec [assign [''directories'', ''subdirs''] ''downloads'' v,
           console_print (Heading ''Styles:''), subscript ''style'', goto (Asking TexTemplate)]"
| "answer TexTemplate v =
     exec [assign [''style''] ''tex_template'' v, goto (Asking BackgroundColor)]"
| "answer BackgroundColor v =
     exec [assign [''style''] ''background_color'' v,
           console_print (Heading ''Camera qualities:''), console_print Qualities_Table,
           goto (Asking DefaultResolution)]"
| "answer DefaultResolution v =
     exec [assign [''camera_resolutions''] ''default_resolution'' v, goto Confirming]"

section \<open>Writing the file\<close>

definition path_join :: "string \<Rightarrow> string \<Rightarrow> string" where
  "path_join a b = a @ ''/'' @ b"

definition global_file_name :: "env \<Rightarrow> string" where
  "global_file_name e = path_join (path_join (manim_dir e) ''manimlib'') ''default_config.yml''"

definition local_file_name :: "env \<Rightarrow> string" where
  "local_file_name e = path_join (cwd e) ''custom_config.yml''"

definition path_exists :: "(string \<rightharpoonup> 'f) \<Rightarrow> string \<Rightarrow> bool" where
  "path_exists fs p = (fs p \<noteq> None)"

definition decide :: "env \<Rightarrow> string option \<Rightarrow> bool \<Rightarrow> string \<times> bool" where
  "decide e sc global_exists =
     (if sc = Some ''global'' then (global_file_name e, False)
      else (local_file_name e, global_exists))"

definition yaml_dump :: "string \<Rightarrow> wstate \<Rightarrow> wstate" where
  "yaml_dump file_name s = s\<lparr>files := (files s)(file_name \<mapsto> configuration s)\<rparr>"

definition write_config :: "env \<Rightarrow> wstate \<Rightarrow> wstate" where
  "write_config e s =
     (let (file_name, prune) = decide e (scope s) (path_exists (files s) (global_file_name e))
      in exec [(\<lambda>s. if prune then s\<lparr>configuration := remove_empty_value (configuration s)\<rparr> else s),
               yaml_dump file_name,
               console_print (Success (case scope s of None \<Rightarrow> [] | Some sc \<Rightarrow> sc)),
               console_print (Modify_Hint file_name),
               goto Written] s)"

definition cancel :: "wstate \<Rightarrow> wstate" where
  "cancel = exec [console_print Exit_Guide, goto Cancelled]"

section \<open>The machine\<close>

fun terminal :: "pc \<Rightarrow> bool" where
  "terminal (Asking q) = False"
| "terminal Confirming = False"
| "terminal _ = True"

fun step :: "env \<Rightarrow> wstate \<Rightarrow> event \<Rightarrow> wstate option" where
  "step e s KeyboardInterrupt = (if terminal (pc s) then None else Some (cancel s))"
| "step e s (Reply v) = (case pc s of Asking q \<Rightarrow> Some (answer q v s) | _ \<Rightarrow> None)"
| "step e s (Confirm b) =
     (case pc s of
        Confirming \<Rightarrow> Some (if b then write_config e s else cancel s)
      | _ \<Rightarrow> None)"

fun run :: "env \<Rightarrow> wstate \<Rightarrow> event list \<Rightarrow> wstate option" where
  "run e s [] = Some s"
| "run e s (ev # evs) = (case step e s ev of None \<Rightarrow> None | Some s' \<Rightarrow> run e s' evs)"

definition init_customization :: "env \<Rightarrow> (string \<rightharpoonup> dict) \<Rightarrow> event list \<Rightarrow> wstate option" where
  "init_customization e fs evs = run e (start fs) evs"

section \<open>The guide in closed form\<close>

fun target :: "question \<Rightarrow> (string list \<times> string) option" where
  "target Scope = None"
| "target Base = Some ([''directories''], ''base'')"
| "target Output = Some ([''directories'', ''subdirs''], ''output'')"
| "target RasterImages = Some ([''directories'', ''subdirs''], ''raster_images'')"
| "target VectorImages = Some ([''directories'', ''subdirs''], ''vector_images'')"
| "target Sounds = Some ([''directories'', ''subdirs''], ''sounds'')"
| "target Downloads = Some ([''directories'', ''subdirs''], ''downloads'')"
| "target TexTemplate = Some ([''style''], ''tex_template'')"
| "target BackgroundColor = Some ([''style''], ''background_color'')"
| "target DefaultResolution = Some ([''camera_resolutions''], ''default_resolution'')"

fun next_pc :: "question \<Rightarrow> pc" where
  "next_pc Scope = Asking Base"
| "next_pc Base = Asking Output"
| "next_pc Output = Asking RasterImages"
| "next_pc RasterImages = Asking VectorImages"
| "next_pc VectorImages = Asking Sounds"
| "next_pc Sounds = Asking Downloads"
| "next_pc Downloads = Asking TexTemplate"
| "next_pc TexTemplate = Asking BackgroundColor"
| "next_pc BackgroundColor = Asking DefaultResolution"
| "next_pc DefaultResolution = Confirming"

fun prints :: "question \<Rightarrow> message list" where
  "prints Scope = [Heading ''Directories:'']"
| "prints Downloads = [Heading ''Styles:'']"
| "prints BackgroundColor = [Heading ''Camera qualities:'', Qualities_Table]"
| "prints _ = []"

fun remaining :: "pc \<Rightarrow> nat" where
  "remaining (Asking Scope) = 11"
| "remaining (Asking Base) = 10"
| "remaining (Asking Output) = 9"
| "remaining (Asking RasterImages) = 8"
| "remaining (Asking VectorImages) = 7"
| "remaining (Asking Sounds) = 6"
| "remaining (Asking Downloads) = 5"
| "remaining (Asking TexTemplate) = 4"
| "remaining (Asking BackgroundColor) = 3"
| "remaining (Asking DefaultResolution) = 2"
| "remaining Confirming = 1"
| "remaining _ = 0"

function completion :: "(question \<Rightarrow> string) \<Rightarrow> pc \<Rightarrow> event list" where
  "completion a (Asking q) = Reply (a q) # completion a (next_pc q)"
| "completion a Confirming = [Confirm True]"
| "completion a Written = []"
| "completion a Cancelled = []"
| "completion a (Crashed err) = []"
  by pat_completeness auto

termination
proof (relation "measure (\<lambda>(a, p). remaining p)")
  show "wf (measure (\<lambda>(a :: question \<Rightarrow> string, p). remaining p))" by simp
  show "((a, next_pc q), (a, Asking q)) \<in> measure (\<lambda>(a, p). remaining p)"
    for a :: "question \<Rightarrow> string" and q
    by (cases q) simp_all
qed

inductive reachable :: "env \<Rightarrow> (string \<rightharpoonup> dict) \<Rightarrow> wstate \<Rightarrow> bool" for e fs where
  reach_start: "reachable e fs (start fs)"
| reach_step: "reachable e fs s \<Longrightarrow> step e s ev = Some s' \<Longrightarrow> reachable e fs s'"

section \<open>Statements on a state that has not crashed\<close>

lemmas stmt_defs = console_print_def goto_def subscript_def assign_def yaml_dump_def

lemma exec_Cons_running [simp]: "\<not> crashed (pc s) \<Longrightarrow> exec (f # fs) s = exec fs (f s)"
  by simp

lemma exec_crashed [simp]: "crashed (pc s) \<Longrightarrow> exec fs s = s"
  by (cases fs) simp_all

declare exec.simps(2) [simp del]

lemma terminal_crashed: "crashed p \<Longrightarrow> terminal p"
  by (cases p) simp_all

lemma subscript_present:
  "k \<in> set (keys (configuration s)) \<Longrightarrow> subscript k s = s"
  by (auto simp: subscript_def dest: getitem_present)

lemma assign_Return:
  "store (configuration s) path k (PyStr v) = Return c \<Longrightarrow>
   assign path k v s = s\<lparr>configuration := c\<rparr>"
  by (simp add: assign_def)

lemma assign_Raise:
  "store (configuration s) path k (PyStr v) = Raise err \<Longrightarrow>
   assign path k v s = s\<lparr>pc := Crashed err\<rparr>"
  by (simp add: assign_def)

section \<open>One prompt on a record of the schema's shape\<close>

lemma schema_keys:
  "shape_of (PyDict d) = schema \<Longrightarrow> keys d = keys initial_configuration"
proof -
  assume "shape_of (PyDict d) = schema"
  then have "map fst (map (\<lambda>(k, v). (k, shape_of v)) d) =
      map fst (map (\<lambda>(k, v). (k, shape_of v)) initial_configuration)"
    by (simp add: schema_def)
  then show ?thesis by (simp add: keys_def)
qed

lemma schema_store:
  assumes "shape_of (PyDict d) = schema" and "shape_lookup schema (path @ [k]) = Some (Leaf TStr)"
  shows "\<exists>c. store d path k (PyStr v) = Return c \<and> shape_of (PyDict c) = schema"
proof -
  from schema_lookup [OF assms] obtain u where
    "lookup (PyDict d) (path @ [k]) = Some u" and "shape_of u = shape_of (PyStr v)"
    by auto
  from store_shape [OF this] assms(1) show ?thesis by auto
qed

lemma target_schema: "target q = Some (path, k) \<Longrightarrow> shape_lookup schema (path @ [k]) = Some (Leaf TStr)"
  by (cases q) (auto simp: schema_eq)

lemma answer_schema:
  assumes shape: "shape_of (PyDict (configuration s)) = schema" and run: "\<not> crashed (pc s)"
  shows "\<exists>c. shape_of (PyDict c) = schema \<and>
     (case target q of
        None \<Rightarrow> c = configuration s
      | Some (path, k) \<Rightarrow> store (configuration s) path k (PyStr v) = Return c) \<and>
     answer q v s =
       s\<lparr>pc := next_pc q, configuration := c,
         scope := (if q = Scope then Some v else scope s),
         console := console s @ prints q\<rparr>"
proof (cases "target q")
  case None
  then have q: "q = Scope" by (cases q) simp_all
  from schema_keys [OF shape] have "''directories'' \<in> set (keys (configuration s))"
    by (simp add: keys_initial_configuration)
  then have "subscript ''directories'' (s\<lparr>scope := Some v, console := console s @ [Heading ''Directories:'']\<rparr>) =
      s\<lparr>scope := Some v, console := console s @ [Heading ''Directories:'']\<rparr>"
    by (intro subscript_present) simp
  with run shape q show ?thesis
    by (simp add: console_print_def goto_def)
next
  case (Some pk)
  obtain path k where pk: "pk = (path, k)" by (cases pk)
  from schema_store [OF shape target_schema, of q path k v] Some pk
  obtain c where c: "store (configuration s) path k (PyStr v) = Return c"
    and c_shape: "shape_of (PyDict c) = schema"
    by auto
  from schema_keys [OF c_shape] have style: "''style'' \<in> set (keys c)"
    by (simp add: keys_initial_configuration)
  have "answer q v s =
      s\<lparr>pc := next_pc q, configuration := c,
        scope := (if q = Scope then Some v else scope s), console := console s @ prints q\<rparr>"
    using Some pk c run
    by (cases q)
      (simp_all add: assign_def console_print_def goto_def subscript_present style
        del: store.simps)
  with c c_shape Some pk show ?thesis by simp
qed

end
