(* ===== verification/Wizard_Run.thy ===== *)
theory Wizard_Run
  imports Wizard
begin

text \<open>
  Complete runs of the guide in closed form. A user who answers every prompt is a
  function from the questions to the strings the prompts return (\<open>script\<close> lists the
  events in the order of the source); \<open>answered\<close> is the record after the last prompt,
  written out leaf by leaf, and \<open>document\<close> the record that is written. The lemmas
  evaluate the machine of theory \<open>Wizard\<close> on such a script symbolically; the theorems
  are stated of the runs of \<open>init_customization\<close>: which file is written, when the
  record is pruned, that the file holds every answer at the leaf its prompt assigns,
  which label the quality prompt leaves in it, and when it repeats the initial record.
  \<open>asked_leaves\<close> are the paths the prompts assign and \<open>untouched\<close> the other leaves of
  the initial record.
\<close>

section \<open>Scripts and the record they produce\<close>

definition script :: "(question \<Rightarrow> string) \<Rightarrow> event list" where
  "script a = map (\<lambda>q. Reply (a q)) questions"

definition answered :: "(question \<Rightarrow> string) \<Rightarrow> dict" where
  "answered a =
    [(''directories'', PyDict
        [(''mirror_module_path'', PyBool False),
         (''base'', PyStr (a Base)),
         (''subdirs'', PyDict
            [(''output'', PyStr (a Output)),
             (''raster_images'', PyStr (a RasterImages)),
             (''vector_images'', PyStr (a VectorImages)),
             (''sounds'', PyStr (a Sounds)),
             (''data'', PyStr ''data''),
             (''downloads'', PyStr (a Downloads))])]),
     (''universal_import_line'', PyStr ''from manimlib import *''),
     (''style'', PyDict
        [(''tex_template'', PyStr (a TexTemplate)),
         (''font'', PyStr ''Consolas''),
         (''background_color'', PyStr (a BackgroundColor))]),
     (''window_position'', PyStr ''UR''),
     (''window_monitor'', PyInt 0),
     (''full_screen'', PyBool False),
     (''break_into_partial_movies'', PyBool False),
     (''camera_resolutions'', PyDict
        [(''low'', PyStr ''854x480''),
         (''medium'', PyStr ''1280x720''),
         (''high'', PyStr ''1920x1080''),
         (''4k'', PyStr ''3840x2160''),
         (''default_resolution'', PyStr (a DefaultResolution))]),
     (''fps'', PyInt 30)]"

definition confirming :: "(string \<rightharpoonup> dict) \<Rightarrow> (question \<Rightarrow> string) \<Rightarrow> wstate" where
  "confirming fs a =
     \<lparr>pc = Confirming, configuration = answered a, scope = Some (a Scope),
      console =
        [Guide_Rule, Heading ''Directories:'', Heading ''Styles:'',
         Heading ''Camera qualities:'', Qualities_Table],
      files = fs\<rparr>"

definition document :: "env \<Rightarrow> (string \<rightharpoonup> dict) \<Rightarrow> (question \<Rightarrow> string) \<Rightarrow> dict" where
  "document e fs a =
     (if snd (decide e (Some (a Scope)) (path_exists fs (global_file_name e)))
      then remove_empty_value (answered a) else answered a)"

definition file_name :: "env \<Rightarrow> (question \<Rightarrow> string) \<Rightarrow> string" where
  "file_name e a = (if a Scope = ''global'' then global_file_name e else local_file_name e)"

definition defaults :: "question \<Rightarrow> string" where
  "defaults = ask_default"

definition asked_leaves :: "string list list" where
  "asked_leaves = List.map_filter (\<lambda>q. map_option (\<lambda>(p, k). p @ [k]) (target q)) questions"

definition untouched :: "string list list" where
  "untouched = filter (\<lambda>p. p \<notin> set asked_leaves) (leaves initial_configuration)"

definition example_env :: env where
  "example_env = \<lparr>manim_dir = ''/opt/manim'', cwd = ''/home/user/scenes''\<rparr>"

definition initial_answers :: "question \<Rightarrow> string" where
  "initial_answers q =
     (if q \<in> {Base, TexTemplate, BackgroundColor, DefaultResolution} then [] else ask_default q)"

definition valid_answers :: "(question \<Rightarrow> string) \<Rightarrow> bool" where
  "valid_answers a \<longleftrightarrow>
     list_all (\<lambda>q. ask_choices q = [] \<or> a q \<in> set (ask_choices q)) questions"

section \<open>Evaluating a script\<close>

lemma run_append:
  "run e s (evs @ evs') = (case run e s evs of None \<Rightarrow> None | Some s' \<Rightarrow> run e s' evs')"
  by (induction evs arbitrary: s) (simp_all split: option.splits)

lemma run_script: "run e (start fs) (script a) = Some (confirming fs a)"
  by (simp add: script_def questions_def start_def initial_configuration_def confirming_def
      answered_def stmt_defs getitem_def setitem_def)

lemma fst_decide: "fst (decide e (Some (a Scope)) ex) = file_name e a"
  by (simp add: decide_def file_name_def)

lemma write_config_confirming:
  "write_config e (confirming fs a) =
     \<lparr>pc = Written, configuration = document e fs a, scope = Some (a Scope),
      console =
        [Guide_Rule, Heading ''Directories:'', Heading ''Styles:'',
         Heading ''Camera qualities:'', Qualities_Table,
         Success (a Scope), Modify_Hint (file_name e a)],
      files = fs(file_name e a \<mapsto> document e fs a)\<rparr>"
  by (simp add: write_config_def confirming_def document_def stmt_defs Let_def
      case_prod_beta fst_decide)

lemma cancel_confirming:
  "cancel (confirming fs a) =
     \<lparr>pc = Cancelled, configuration = answered a, scope = Some (a Scope),
      console =
        [Guide_Rule, Heading ''Directories:'', Heading ''Styles:'',
         Heading ''Camera qualities:'', Qualities_Table, Exit_Guide],
      files = fs\<rparr>"
  by (simp add: cancel_def confirming_def stmt_defs)

lemma init_customization_confirmed:
  "init_customization e fs (script a @ [Confirm True]) = Some (write_config e (confirming fs a))"
  by (simp add: init_customization_def run_append run_script confirming_def)

lemma init_customization_declined:
  "init_customization e fs (script a @ [Confirm False]) = Some (cancel (confirming fs a))"
  by (simp add: init_customization_def run_append run_script confirming_def)

lemma document_cases:
  "document e fs a =
     (if a Scope \<noteq> ''global'' \<and> fs (global_file_name e) \<noteq> None
      then remove_empty_value (answered a) else answered a)"
  by (auto simp: document_def decide_def path_exists_def)

lemma wf_answered: "wf_dict (answered a)"
  by (simp add: answered_def)

lemma lookup_answered_leaves:
  "lookup (PyDict (answered a)) [''directories'', ''mirror_module_path''] = Some (PyBool False)"
  "lookup (PyDict (answered a)) [''directories'', ''base''] = Some (PyStr (a Base))"
  "lookup (PyDict (answered a)) [''directories'', ''subdirs'', ''output''] = Some (PyStr (a Output))"
  "lookup (PyDict (answered a)) [''directories'', ''subdirs'', ''raster_images''] =
     Some (PyStr (a RasterImages))"
  "lookup (PyDict (answered a)) [''directories'', ''subdirs'', ''vector_images''] =
     Some (PyStr (a VectorImages))"
  "lookup (PyDict (answered a)) [''directories'', ''subdirs'', ''sounds''] = Some (PyStr (a Sounds))"
  "lookup (PyDict (answered a)) [''directories'', ''subdirs'', ''data''] = Some (PyStr ''data'')"
  "lookup (PyDict (answered a)) [''directories'', ''subdirs'', ''downloads''] =
     Some (PyStr (a Downloads))"
  "lookup (PyDict (answered a)) [''universal_import_line''] = Some (PyStr ''from manimlib import *'')"
  "lookup (PyDict (answered a)) [''style'', ''tex_template''] = Some (PyStr (a TexTemplate))"
  "lookup (PyDict (answered a)) [''style'', ''font''] = Some (PyStr ''Consolas'')"
  "lookup (PyDict (answered a)) [''style'', ''background_color''] = Some (PyStr (a BackgroundColor))"
  "lookup (PyDict (answered a)) [''window_position''] = Some (PyStr ''UR'')"
  "lookup (PyDict (answered a)) [''window_monitor''] = Some (PyInt 0)"
  "lookup (PyDict (answered a)) [''full_screen''] = Some (PyBool False)"
  "lookup (PyDict (answered a)) [''break_into_partial_movies''] = Some (PyBool False)"
  "lookup (PyDict (answered a)) [''camera_resolutions'', ''low''] = Some (PyStr ''854x480'')"
  "lookup (PyDict (answered a)) [''camera_resolutions'', ''medium''] = Some (PyStr ''1280x720'')"
  "lookup (PyDict (answered a)) [''camera_resolutions'', ''high''] = Some (PyStr ''1920x1080'')"
  "lookup (PyDict (answered a)) [''camera_resolutions'', ''4k''] = Some (PyStr ''3840x2160'')"
  "lookup (PyDict (answered a)) [''camera_resolutions'', ''ultra_high''] = None"
  "lookup (PyDict (answered a)) [''camera_resolutions'', ''default_resolution''] =
     Some (PyStr (a DefaultResolution))"
  "lookup (PyDict (answered a)) [''fps''] = Some (PyInt 30)"
  by (simp_all add: answered_def)

lemmas lookup_pruned_answered = lookup_pruned [OF wf_answered]

lemma initial_as_answered: "initial_configuration = answered initial_answers"
  by (simp add: initial_configuration_def answered_def initial_answers_def)

lemma lookup_answered:
  "target q = Some (p, k) \<Longrightarrow> lookup (PyDict (answered a)) (p @ [k]) = Some (PyStr (a q))"
  by (cases q) (auto simp: lookup_answered_leaves simp del: lookup.simps)

lemma lookup_target_pruned:
  assumes "target q = Some (p, k)"
  shows "lookup (PyDict (remove_empty_value (answered a))) (p @ [k]) =
     (if a q = [] then None else Some (PyStr (a q)))"
proof -
  from assms obtain k' ks where "p @ [k] = k' # ks" by (cases p) auto
  with lookup_pruned_answered [of a k' ks] lookup_answered [OF assms, of a] show ?thesis
    by (simp del: lookup.simps)
qed

lemma store_answered:
  "target q = Some (p, k) \<Longrightarrow> store (answered a) p k (PyStr v) = Return (answered (a(q := v)))"
  by (cases q; clarsimp simp: answered_def getitem_def setitem_def)

lemma untouched_eq:
  "untouched =
    [[''directories'', ''mirror_module_path''], [''directories'', ''subdirs'', ''data''],
     [''universal_import_line''], [''style'', ''font''], [''window_position''],
     [''window_monitor''], [''full_screen''], [''break_into_partial_movies''],
     [''camera_resolutions'', ''low''], [''camera_resolutions'', ''medium''],
     [''camera_resolutions'', ''high''], [''camera_resolutions'', ''4k''], [''fps'']]"
  by (simp add: untouched_def asked_leaves_def questions_def List.map_filter_simps
      initial_configuration_def)

lemma untouched_answered:
  assumes "p \<in> set untouched"
  shows "lookup (PyDict (answered a)) p = lookup (PyDict initial_configuration) p"
    and "lookup (PyDict (remove_empty_value (answered a))) p =
      lookup (PyDict initial_configuration) p"
proof -
  have "list_all (\<lambda>p. lookup (PyDict (answered a)) p = lookup (PyDict initial_configuration) p \<and>
      lookup (PyDict (remove_empty_value (answered a))) p =
        lookup (PyDict initial_configuration) p) untouched"
    by (simp add: untouched_eq lookup_pruned_answered lookup_answered_leaves
        initial_as_answered del: lookup.simps)
  with assms show "lookup (PyDict (answered a)) p = lookup (PyDict initial_configuration) p"
    and "lookup (PyDict (remove_empty_value (answered a))) p =
      lookup (PyDict initial_configuration) p"
    by (simp_all add: list_all_iff)
qed

lemma all_questions:
  "(\<forall>q. P q) \<longleftrightarrow>
     P Scope \<and> P Base \<and> P Output \<and> P RasterImages \<and> P VectorImages \<and> P Sounds \<and>
     P Downloads \<and> P TexTemplate \<and> P BackgroundColor \<and> P DefaultResolution"
  by (metis question.exhaust)

lemma target_Some_iff: "(\<exists>p k. target q = Some (p, k)) \<longleftrightarrow> q \<noteq> Scope"
  by (cases q) simp_all

lemma answered_inject: "answered a = answered b \<longleftrightarrow> (\<forall>q. q \<noteq> Scope \<longrightarrow> a q = b q)"
  by (simp add: answered_def all_questions)

lemma answered_initial_iff:
  "answered a = initial_configuration \<longleftrightarrow>
     (\<forall>q p k. target q = Some (p, k) \<longrightarrow>
        lookup (PyDict initial_configuration) (p @ [k]) = Some (PyStr (a q)))"
proof -
  have "(\<forall>q p k. target q = Some (p, k) \<longrightarrow>
        lookup (PyDict (answered initial_answers)) (p @ [k]) = Some (PyStr (a q))) \<longleftrightarrow>
      (\<forall>q. q \<noteq> Scope \<longrightarrow> a q = initial_answers q)"
  proof (intro iffI allI impI)
    fix q :: question
    assume all: "\<forall>q p k. target q = Some (p, k) \<longrightarrow>
        lookup (PyDict (answered initial_answers)) (p @ [k]) = Some (PyStr (a q))"
      and "q \<noteq> Scope"
    then obtain p k where t: "target q = Some (p, k)" using target_Some_iff [of q] by blast
    with all lookup_answered [OF t, of initial_answers] show "a q = initial_answers q" by simp
  next
    fix q p k
    assume all: "\<forall>q. q \<noteq> Scope \<longrightarrow> a q = initial_answers q" and t: "target q = Some (p, k)"
    from t have "q \<noteq> Scope" by auto
    with all lookup_answered [OF t, of initial_answers]
    show "lookup (PyDict (answered initial_answers)) (p @ [k]) = Some (PyStr (a q))" by simp
  qed
  then show ?thesis unfolding initial_as_answered answered_inject by (rule sym)
qed

lemma written_state:
  "init_customization e fs (script a @ [Confirm True]) = Some s \<Longrightarrow>
   configuration s = document e fs a \<and> files s = fs(file_name e a \<mapsto> document e fs a)"
  by (auto simp: init_customization_confirmed write_config_confirming)

section \<open>Outcome of a complete run\<close>

text \<open>
  C1. A user who answers every prompt and confirms gets exactly one file: the guide ends
  in the written state, the file named by the scope holds the record built from the
  answers (pruned when the decision says so), the console shows the three headings, the
  table and the two closing messages in this order, and no other file is touched.
\<close>
theorem init_customization_writes:
  "init_customization e fs (script a @ [Confirm True]) =
     Some \<lparr>pc = Written, configuration = document e fs a, scope = Some (a Scope),
       console =
         [Guide_Rule, Heading ''Directories:'', Heading ''Styles:'',
          Heading ''Camera qualities:'', Qualities_Table,
          Success (a Scope), Modify_Hint (file_name e a)],
       files = fs(file_name e a \<mapsto> document e fs a)\<rparr>"
  by (simp only: init_customization_confirmed write_config_confirming)

text \<open>
  C12. Scope and path: with scope \<open>global\<close> the file written is
  \<open><manim_dir>/manimlib/default_config.yml\<close>, with any other scope it is
  \<open><cwd>/custom_config.yml\<close>.
\<close>
theorem written_path:
  "\<exists>s. init_customization e fs (script a @ [Confirm True]) = Some s \<and>
     files s =
       fs((if a Scope = ''global'' then manim_dir e @ ''/manimlib/default_config.yml''
           else cwd e @ ''/custom_config.yml'') \<mapsto> configuration s)"
  by (simp add: init_customization_confirmed write_config_confirming file_name_def
      global_file_name_def local_file_name_def path_join_def)

text \<open>
  C8. Pruning trigger: the record is pruned before it is written if and only if the
  scope is not \<open>global\<close> and a file exists at the global path when the user confirms.
  Observed on a blank base directory: the key \<open>directories.base\<close> is absent from the
  written record exactly in that case. (The instance below is scenario B of the
  specification.)
\<close>
theorem pruning_trigger:
  assumes "a Base = []"
    and "init_customization e fs (script a @ [Confirm True]) = Some s"
  shows "lookup (PyDict (configuration s)) [''directories'', ''base''] = None \<longleftrightarrow>
    a Scope \<noteq> ''global'' \<and> fs (global_file_name e) \<noteq> None"
proof -
  from assms(2) have "configuration s = document e fs a"
    by (auto simp: init_customization_confirmed write_config_confirming)
  with assms(1) lookup_answered [of Base "[''directories'']" "''base''" a]
    lookup_target_pruned [of Base "[''directories'']" "''base''" a]
  show ?thesis by (simp add: document_cases)
qed

theorem pruning_trigger_witness:
  "(defaults(Output := ''clips'')) Base = [] \<and>
   (\<exists>s. init_customization example_env
          [''/opt/manim/manimlib/default_config.yml'' \<mapsto> initial_configuration]
          (script (defaults(Output := ''clips'')) @ [Confirm True]) = Some s \<and>
        lookup (PyDict (configuration s)) [''directories'', ''base''] = None \<and>
        lookup (PyDict (configuration s)) [''directories'', ''subdirs'', ''output''] =
          Some (PyStr ''clips''))"
proof -
  let ?a = "defaults(Output := ''clips'')"
  let ?fs = "[''/opt/manim/manimlib/default_config.yml'' \<mapsto> initial_configuration]"
  let ?s = "write_config example_env (confirming ?fs ?a)"
  have base: "?a Base = []" by (simp add: defaults_def)
  have run: "init_customization example_env ?fs (script ?a @ [Confirm True]) = Some ?s"
    by (rule init_customization_confirmed)
  have "lookup (PyDict (configuration ?s)) [''directories'', ''base''] = None"
    using pruning_trigger [OF base run]
    by (simp add: defaults_def example_env_def global_file_name_def path_join_def)
  moreover have "lookup (PyDict (configuration ?s)) [''directories'', ''subdirs'', ''output''] =
      Some (PyStr ''clips'')"
    using lookup_target_pruned [of Output "[''directories'', ''subdirs'']" "''output''" ?a]
    by (simp add: write_config_confirming document_cases defaults_def example_env_def
        global_file_name_def path_join_def)
  ultimately show ?thesis using base run by blast
qed

text \<open>
  C13. Every answer is found in the file the guide writes, at the leaf its prompt
  assigns and as the string the prompt returned; the one exception is an answer that is
  the empty string when the record is pruned, whose key is then absent from the file.
\<close>
theorem answers_recorded:
  assumes "init_customization e fs (script a @ [Confirm True]) = Some s"
    and "target q = Some (p, k)"
  shows "\<exists>f. files s (if a Scope = ''global'' then global_file_name e else local_file_name e) =
         Some f \<and>
       lookup (PyDict f) (p @ [k]) =
         (if a q = [] \<and> a Scope \<noteq> ''global'' \<and> fs (global_file_name e) \<noteq> None then None
          else Some (PyStr (a q)))"
  using written_state [OF assms(1)] lookup_answered [OF assms(2), of a]
    lookup_target_pruned [OF assms(2), of a]
  by (simp add: document_cases file_name_def)

theorem answers_recorded_witness:
  "\<exists>s. init_customization example_env Map.empty
        (script (defaults(BackgroundColor := ''#000000'')) @ [Confirm True]) = Some s \<and>
      target BackgroundColor = Some ([''style''], ''background_color'') \<and>
      (\<exists>f. files s ''/home/user/scenes/custom_config.yml'' = Some f \<and>
         lookup (PyDict f) [''style'', ''background_color''] = Some (PyStr ''#000000''))"
proof -
  let ?a = "defaults(BackgroundColor := ''#000000'')"
  have run: "init_customization example_env Map.empty (script ?a @ [Confirm True]) =
      Some (write_config example_env (confirming Map.empty ?a))"
    by (rule init_customization_confirmed)
  from answers_recorded [OF run, of BackgroundColor "[''style'']" "''background_color''"] run
  show ?thesis
    by (simp add: defaults_def local_file_name_def path_join_def example_env_def)
qed

text \<open>
  C28. The quality prompt offers a label that names no resolution. When the prompts
  return one of their choices, the file the guide writes holds under
  \<open>camera_resolutions.default_resolution\<close> the label the quality prompt returned, one
  of \<open>low\<close>, \<open>medium\<close>, \<open>high\<close> and \<open>ultra_high\<close>; the file defines a resolution
  under that label unless the label is \<open>ultra_high\<close>, for which \<open>camera_resolutions\<close>
  has no entry (its fourth resolution is called \<open>4k\<close>).
\<close>
theorem ultra_high_names_no_resolution:
  assumes "init_customization e fs (script a @ [Confirm True]) = Some s"
    and "valid_answers a"
  shows "\<exists>f r. files s (if a Scope = ''global'' then global_file_name e else local_file_name e) =
         Some f \<and>
       lookup (PyDict f) [''camera_resolutions'', ''default_resolution''] = Some (PyStr r) \<and>
       r = a DefaultResolution \<and> r \<in> set (ask_choices DefaultResolution) \<and>
       (lookup (PyDict f) [''camera_resolutions'', r] = None \<longleftrightarrow> r = ''ultra_high'')"
proof -
  let ?r = "a DefaultResolution"
  from assms(2) have choice: "?r \<in> {''low'', ''medium'', ''high'', ''ultra_high''}"
    by (simp add: valid_answers_def questions_def)
  then have "?r \<noteq> []" by auto
  with lookup_answered [of DefaultResolution "[''camera_resolutions'']" "''default_resolution''" a]
    lookup_target_pruned [of DefaultResolution "[''camera_resolutions'']" "''default_resolution''" a]
  have stored: "lookup (PyDict (document e fs a)) [''camera_resolutions'', ''default_resolution''] =
      Some (PyStr ?r)"
    by (simp add: document_cases)
  from choice have "lookup (PyDict (document e fs a)) [''camera_resolutions'', ?r] = None \<longleftrightarrow>
      ?r = ''ultra_high''"
    by (auto simp: document_cases lookup_pruned_answered lookup_answered_leaves
        simp del: lookup.simps)
  with stored choice written_state [OF assms(1)] show ?thesis
    by (simp add: file_name_def del: lookup.simps)
qed

theorem ultra_high_names_no_resolution_witness:
  "valid_answers (defaults(DefaultResolution := ''ultra_high'')) \<and>
   (\<exists>s f. init_customization example_env Map.empty
        (script (defaults(DefaultResolution := ''ultra_high'')) @ [Confirm True]) = Some s \<and>
      files s ''/home/user/scenes/custom_config.yml'' = Some f \<and>
      lookup (PyDict f) [''camera_resolutions'', ''default_resolution''] =
        Some (PyStr ''ultra_high'') \<and>
      lookup (PyDict f) [''camera_resolutions'', ''ultra_high''] = None)"
proof -
  let ?a = "defaults(DefaultResolution := ''ultra_high'')"
  have valid: "valid_answers ?a"
    by (simp add: valid_answers_def questions_def defaults_def)
  have run: "init_customization example_env Map.empty (script ?a @ [Confirm True]) =
      Some (write_config example_env (confirming Map.empty ?a))"
    by (rule init_customization_confirmed)
  from ultra_high_names_no_resolution [OF run valid] run valid show ?thesis
    by (auto simp: defaults_def local_file_name_def path_join_def example_env_def
        simp del: lookup.simps)
qed

text \<open>
  C31. The file repeats the initial record only when the user types it in: the record
  written equals the initial record if and only if nothing is pruned and every answer
  is the string the initial record holds at the leaf the prompt assigns. The defaults of
  the prompts are not those strings (the initial record has empty strings for the base
  directory, the TeX template, the background colour and the default resolution), and
  no choice of the quality prompt is empty: a user whose answers are among the choices
  never gets the initial record, in particular not by accepting every default.
\<close>
theorem written_record_is_initial_iff:
  assumes "init_customization e fs (script a @ [Confirm True]) = Some s"
  shows "(configuration s = initial_configuration \<longleftrightarrow>
       (a Scope = ''global'' \<or> fs (global_file_name e) = None) \<and>
       (\<forall>q p k. target q = Some (p, k) \<longrightarrow>
          lookup (PyDict initial_configuration) (p @ [k]) = Some (PyStr (a q)))) \<and>
     (valid_answers a \<longrightarrow> configuration s \<noteq> initial_configuration)"
proof -
  from assms have conf: "configuration s = document e fs a" by (simp add: written_state)
  note same = answered_initial_iff [of a]
  have "lookup (PyDict initial_configuration) [''directories'', ''base''] = Some (PyStr [])"
    by (simp add: initial_configuration_def)
  with no_empty_str_lookup [OF remove_empty_value_no_empty_str_aux, of "answered a"]
  have pruned: "remove_empty_value (answered a) \<noteq> initial_configuration"
    by (auto simp del: lookup.simps)
  have "answered a \<noteq> initial_configuration" if "valid_answers a"
  proof -
    from that have "a DefaultResolution \<noteq> []"
      by (auto simp: valid_answers_def questions_def)
    then show ?thesis by (auto simp: initial_as_answered answered_inject initial_answers_def)
  qed
  with same pruned show ?thesis unfolding conf document_cases by auto
qed

theorem written_record_is_initial_iff_witness:
  "valid_answers defaults \<and>
   (\<exists>s. init_customization example_env Map.empty (script defaults @ [Confirm True]) = Some s \<and>
      files s = [''/home/user/scenes/custom_config.yml'' \<mapsto> configuration s] \<and>
      configuration s \<noteq> initial_configuration \<and>
      lookup (PyDict (configuration s)) [''style'', ''tex_template''] = Some (PyStr ''default''))"
proof -
  have valid: "valid_answers defaults"
    by (simp add: valid_answers_def questions_def defaults_def)
  have run: "init_customization example_env Map.empty (script defaults @ [Confirm True]) =
      Some (write_config example_env (confirming Map.empty defaults))"
    by (rule init_customization_confirmed)
  from written_record_is_initial_iff [OF run] valid
  have "configuration (write_config example_env (confirming Map.empty defaults)) \<noteq>
      initial_configuration"
    by blast
  with run valid show ?thesis
    by (simp add: write_config_confirming document_cases file_name_def local_file_name_def
        path_join_def example_env_def defaults_def lookup_answered_leaves
        del: lookup.simps)
qed

text \<open>
  C29. Declining the confirmation is the same as an interrupt at the confirmation prompt:
  both take the same step, to the cancelled state, with the exit message printed and no
  file written.
\<close>
theorem decline_is_interrupt:
  assumes "pc s = Confirming"
  shows "step e s (Confirm False) = step e s KeyboardInterrupt \<and>
     step e s (Confirm False) =
       Some (s\<lparr>pc := Cancelled, console := console s @ [Exit_Guide]\<rparr>)"
  using assms by (simp add: cancel_def stmt_defs)

theorem decline_is_interrupt_witness:
  "pc (confirming Map.empty defaults) = Confirming \<and>
   step example_env (confirming Map.empty defaults) (Confirm False) =
     step example_env (confirming Map.empty defaults) KeyboardInterrupt"
  using decline_is_interrupt [of "confirming Map.empty defaults" example_env]
  by (simp add: confirming_def)

end
