(* ===== verification/Wizard_Inv.thy ===== *)
theory Wizard_Inv
  imports Wizard_Run
begin

text \<open>
  What holds in every state the guide can reach, whatever the user answers. The
  invariant \<open>guide_inv\<close> says, by program point: before the file is written the record
  has the shape of the initial record (same keys, same nesting, same leaf types), the
  files on disk are those found at the start and the console shows the transcript of the
  prompts passed so far; after a cancellation the same holds and the console ends with
  the exit message; after the write exactly one file differs, it holds the record, and
  the console ends with the success message. No reachable state has crashed. The record
  of every reachable state is the initial record with answers at the leaves the prompts
  assign (\<open>reachable_answered\<close>), pruned or not once it is written, so the leaves no
  prompt assigns keep their initial values throughout. The
  measure \<open>remaining\<close> bounds the length of every run by eleven events, and
  \<open>completion\<close> lists the events that finish the guide from any waiting state. The
  phases of the specification's state machine (\<open>phase\<close>, \<open>phase_step\<close>) are the
  abstraction the steps of the guide are shown to refine.
\<close>

section \<open>The invariant\<close>

fun transcript :: "pc \<Rightarrow> message list" where
  "transcript (Asking Scope) = [Guide_Rule]"
| "transcript (Asking Base) = [Guide_Rule, Heading ''Directories:'']"
| "transcript (Asking Output) = [Guide_Rule, Heading ''Directories:'']"
| "transcript (Asking RasterImages) = [Guide_Rule, Heading ''Directories:'']"
| "transcript (Asking VectorImages) = [Guide_Rule, Heading ''Directories:'']"
| "transcript (Asking Sounds) = [Guide_Rule, Heading ''Directories:'']"
| "transcript (Asking Downloads) = [Guide_Rule, Heading ''Directories:'']"
| "transcript (Asking TexTemplate) =
     [Guide_Rule, Heading ''Directories:'', Heading ''Styles:'']"
| "transcript (Asking BackgroundColor) =
     [Guide_Rule, Heading ''Directories:'', Heading ''Styles:'']"
| "transcript (Asking DefaultResolution) =
     [Guide_Rule, Heading ''Directories:'', Heading ''Styles:'',
      Heading ''Camera qualities:'', Qualities_Table]"
| "transcript _ =
     [Guide_Rule, Heading ''Directories:'', Heading ''Styles:'',
      Heading ''Camera qualities:'', Qualities_Table]"

definition waiting :: "pc list" where
  "waiting = map Asking questions @ [Confirming]"

definition pre_write :: "(string \<rightharpoonup> dict) \<Rightarrow> wstate \<Rightarrow> bool" where
  "pre_write fs s \<longleftrightarrow> shape_of (PyDict (configuration s)) = schema \<and> files s = fs"

definition written :: "env \<Rightarrow> (string \<rightharpoonup> dict) \<Rightarrow> wstate \<Rightarrow> bool" where
  "written e fs s \<longleftrightarrow>
     (\<exists>sc c. scope s = Some sc \<and> shape_of (PyDict c) = schema \<and>
        configuration s =
          (if snd (decide e (Some sc) (path_exists fs (global_file_name e)))
           then remove_empty_value c else c) \<and>
        files s = fs(fst (decide e (Some sc) (path_exists fs (global_file_name e))) \<mapsto> configuration s) \<and>
        console s =
          transcript Confirming @
          [Success sc, Modify_Hint (fst (decide e (Some sc) (path_exists fs (global_file_name e))))])"

definition guide_inv :: "env \<Rightarrow> (string \<rightharpoonup> dict) \<Rightarrow> wstate \<Rightarrow> bool" where
  "guide_inv e fs s =
     (case pc s of
        Asking q \<Rightarrow>
          pre_write fs s \<and> console s = transcript (Asking q) \<and> (scope s = None \<longleftrightarrow> q = Scope)
      | Confirming \<Rightarrow> pre_write fs s \<and> console s = transcript Confirming \<and> scope s \<noteq> None
      | Cancelled \<Rightarrow>
          pre_write fs s \<and> (\<exists>p \<in> set waiting. console s = transcript p @ [Exit_Guide])
      | Written \<Rightarrow> written e fs s
      | Crashed err \<Rightarrow> False)"

section \<open>The state machine of the specification\<close>

datatype phase =
    AskingScope | AskingDirectories | AskingStyle | AskingQuality | ConfirmingWrite
  | PhaseWritten | PhaseCancelled

fun phase_of :: "pc \<Rightarrow> phase option" where
  "phase_of (Asking Scope) = Some AskingScope"
| "phase_of (Asking TexTemplate) = Some AskingStyle"
| "phase_of (Asking BackgroundColor) = Some AskingStyle"
| "phase_of (Asking DefaultResolution) = Some AskingQuality"
| "phase_of (Asking q) = Some AskingDirectories"
| "phase_of Confirming = Some ConfirmingWrite"
| "phase_of Written = Some PhaseWritten"
| "phase_of Cancelled = Some PhaseCancelled"
| "phase_of (Crashed err) = None"

inductive phase_step :: "phase \<Rightarrow> phase \<Rightarrow> bool" where
  scope_answered: "phase_step AskingScope AskingDirectories"
| directories_answered: "phase_step AskingDirectories AskingStyle"
| style_answered: "phase_step AskingStyle AskingQuality"
| quality_answered: "phase_step AskingQuality ConfirmingWrite"
| confirmed: "phase_step ConfirmingWrite PhaseWritten"
| declined: "phase_step ConfirmingWrite PhaseCancelled"
| interrupted: "ph \<noteq> PhaseWritten \<Longrightarrow> ph \<noteq> PhaseCancelled \<Longrightarrow> phase_step ph PhaseCancelled"

code_pred phase_step .

section \<open>Every step keeps the invariant\<close>

lemma guide_inv_start: "guide_inv e fs (start fs)"
  by (simp add: guide_inv_def start_def pre_write_def schema_def)

lemma transcript_next: "transcript (next_pc q) = transcript (Asking q) @ prints q"
  by (cases q) simp_all

lemma mem_waiting: "p \<in> set waiting \<longleftrightarrow> \<not> terminal p"
  by (cases p rule: remaining.cases) (simp_all add: waiting_def questions_def)

lemma next_pc_not_Scope: "next_pc q \<noteq> Asking Scope"
  by (cases q) simp_all

lemma answer_inv:
  assumes "guide_inv e fs s" and "pc s = Asking q"
  shows "guide_inv e fs (answer q v s)"
proof -
  from assms have shape: "shape_of (PyDict (configuration s)) = schema"
    and files: "files s = fs" and console: "console s = transcript (Asking q)"
    and scope: "scope s = None \<longleftrightarrow> q = Scope"
    by (simp_all add: guide_inv_def pre_write_def)
  from assms(2) have "\<not> crashed (pc s)" by simp
  from answer_schema [OF shape this, where q = q and v = v] obtain c where
    c: "shape_of (PyDict c) = schema" and
    eq: "answer q v s =
       s\<lparr>pc := next_pc q, configuration := c,
         scope := (if q = Scope then Some v else scope s), console := console s @ prints q\<rparr>"
    by blast
  show ?thesis
  proof (cases "next_pc q")
    case (Asking q')
    with next_pc_not_Scope [of q] have "q' \<noteq> Scope" by auto
    with Asking c files console scope transcript_next [of q] show ?thesis
      by (auto simp: eq guide_inv_def pre_write_def)
  next
    case Confirming
    with c files console scope transcript_next [of q] show ?thesis
      by (auto simp: eq guide_inv_def pre_write_def)
  qed (cases q; simp)+
qed

lemma cancel_inv:
  assumes "guide_inv e fs s" and "\<not> terminal (pc s)"
  shows "guide_inv e fs (cancel s)"
proof -
  from assms have pre: "pre_write fs s" and console: "console s = transcript (pc s)"
    by (cases "pc s"; simp add: guide_inv_def)+
  from assms(2) have "\<not> crashed (pc s)" by (auto dest: terminal_crashed)
  then have eq: "cancel s = s\<lparr>console := console s @ [Exit_Guide], pc := Cancelled\<rparr>"
    by (simp add: cancel_def console_print_def goto_def)
  from assms(2) have "pc s \<in> set waiting" by (simp add: mem_waiting)
  with console have "\<exists>p \<in> set waiting. console s @ [Exit_Guide] = transcript p @ [Exit_Guide]"
    by auto
  with pre show ?thesis by (simp add: eq guide_inv_def pre_write_def)
qed

lemma write_config_inv:
  assumes "guide_inv e fs s" and "pc s = Confirming"
  shows "guide_inv e fs (write_config e s)"
proof -
  from assms obtain sc where shape: "shape_of (PyDict (configuration s)) = schema"
    and files: "files s = fs" and console: "console s = transcript Confirming"
    and sc: "scope s = Some sc"
    by (auto simp: guide_inv_def pre_write_def)
  from assms(2) shape files console sc show ?thesis
    by (auto simp: write_config_def guide_inv_def written_def stmt_defs Let_def
        split: prod.splits intro!: exI [of _ "configuration s"])
qed

lemma step_inv:
  assumes "guide_inv e fs s" and "step e s ev = Some s'"
  shows "guide_inv e fs s'"
proof (cases ev)
  case KeyboardInterrupt
  with assms show ?thesis by (auto split: if_splits intro: cancel_inv)
next
  case (Reply v)
  with assms show ?thesis by (auto split: pc.splits intro: answer_inv)
next
  case (Confirm b)
  with assms show ?thesis
    by (auto split: pc.splits if_splits intro: write_config_inv cancel_inv)
qed

lemma reachable_inv: "reachable e fs s \<Longrightarrow> guide_inv e fs s"
  by (induction rule: reachable.induct) (auto intro: guide_inv_start step_inv)

lemma run_reachable: "reachable e fs s \<Longrightarrow> run e s evs = Some s' \<Longrightarrow> reachable e fs s'"
  by (induction evs arbitrary: s) (auto split: option.splits intro: reach_step)

lemma init_customization_reachable:
  "init_customization e fs evs = Some s \<Longrightarrow> reachable e fs s"
  unfolding init_customization_def by (rule run_reachable [OF reach_start])

section \<open>Progress\<close>

lemma pc_answer:
  assumes "guide_inv e fs s" and "pc s = Asking q"
  shows "pc (answer q v s) = next_pc q"
proof -
  from assms have "shape_of (PyDict (configuration s)) = schema" and "\<not> crashed (pc s)"
    by (simp_all add: guide_inv_def pre_write_def)
  from answer_schema [OF this, where q = q and v = v] show ?thesis by auto
qed

lemma pc_cancel: "\<not> terminal (pc s) \<Longrightarrow> pc (cancel s) = Cancelled"
  by (cases "pc s") (simp_all add: cancel_def console_print_def goto_def)

lemma pc_write_config: "pc s = Confirming \<Longrightarrow> pc (write_config e s) = Written"
  by (simp add: write_config_def stmt_defs Let_def split: prod.splits)

lemma remaining_next_pc: "remaining (next_pc q) < remaining (Asking q)"
  by (cases q) simp_all

lemma remaining_pos: "\<not> terminal p \<Longrightarrow> 0 < remaining p"
  by (cases p rule: remaining.cases) simp_all

lemma pc_step:
  assumes "guide_inv e fs s" and "step e s ev = Some s'"
  shows "pc s' =
     (case ev of
        KeyboardInterrupt \<Rightarrow> Cancelled
      | Reply v \<Rightarrow> (case pc s of Asking q \<Rightarrow> next_pc q | p \<Rightarrow> p)
      | Confirm b \<Rightarrow> if b then Written else Cancelled)"
  using assms
  by (cases ev)
    (auto simp: pc_answer pc_cancel pc_write_config split: if_splits pc.splits)

lemma step_remaining:
  assumes "guide_inv e fs s" and "step e s ev = Some s'"
  shows "remaining (pc s') < remaining (pc s)"
proof -
  from assms(2) have "\<not> terminal (pc s)"
    by (cases ev) (auto split: if_splits pc.splits)
  then have "0 < remaining (pc s)" by (rule remaining_pos)
  with assms pc_step [OF assms] show ?thesis
    by (cases ev) (auto simp: remaining_next_pc split: if_splits pc.splits)
qed

lemma run_remaining:
  "reachable e fs s \<Longrightarrow> run e s evs = Some s' \<Longrightarrow>
   length evs + remaining (pc s') \<le> remaining (pc s)"
proof (induction evs arbitrary: s)
  case Nil
  then show ?case by simp
next
  case (Cons ev evs)
  from Cons.prems(2) obtain s1 where s1: "step e s ev = Some s1" and rest: "run e s1 evs = Some s'"
    by (auto split: option.splits)
  from Cons.prems(1) s1 have "reachable e fs s1" by (rule reach_step)
  from Cons.IH [OF this rest] step_remaining [OF reachable_inv [OF Cons.prems(1)] s1]
  show ?case by simp
qed

lemma remaining_0: "remaining p = 0 \<longleftrightarrow> terminal p"
  by (cases p rule: remaining.cases) simp_all

lemma transcript_plain: "Exit_Guide \<notin> set (transcript p) \<and> Success sc \<notin> set (transcript p)"
  by (cases p rule: remaining.cases) simp_all

lemma phase_next_pc:
  "\<exists>ph ph'. phase_of (Asking q) = Some ph \<and> phase_of (next_pc q) = Some ph' \<and>
     (ph' = ph \<or> phase_step ph ph')"
  by (cases q) (auto intro: phase_step.intros)

lemma phase_waiting:
  "\<not> terminal p \<Longrightarrow>
   \<exists>ph. phase_of p = Some ph \<and> ph \<noteq> PhaseWritten \<and> ph \<noteq> PhaseCancelled"
  by (cases p rule: remaining.cases) simp_all

lemma length_completion: "length (completion a p) = remaining p"
proof (induction a p rule: completion.induct)
  case (1 a q)
  then show ?case by (cases q) simp_all
qed simp_all

lemma next_pc_waiting: "\<not> terminal (next_pc q)"
  by (cases q) simp_all

lemma run_completion:
  "guide_inv e fs s \<Longrightarrow> \<not> terminal p \<Longrightarrow> pc s = p \<Longrightarrow>
   \<exists>s'. run e s (completion a p) = Some s' \<and> pc s' = Written"
proof (induction a p arbitrary: s rule: completion.induct)
  case (1 a q)
  let ?s = "answer q (a q) s"
  from "1.prems" have "guide_inv e fs ?s" by (auto intro: answer_inv)
  moreover from "1.prems" have "pc ?s = next_pc q" by (auto intro: pc_answer)
  ultimately obtain s' where "run e ?s (completion a (next_pc q)) = Some s'" "pc s' = Written"
    using "1.IH" [of ?s] next_pc_waiting by blast
  with "1.prems"(3) show ?case by simp
next
  case (2 a)
  then show ?case by (simp add: pc_write_config)
qed simp_all

section \<open>The record in closed form\<close>

lemma configuration_cancel: "configuration (cancel s) = configuration s"
  by (cases "crashed (pc s)") (simp_all add: cancel_def stmt_defs)

lemma configuration_write_config:
  "pc s = Confirming \<Longrightarrow>
   configuration (write_config e s) = configuration s \<or>
   configuration (write_config e s) = remove_empty_value (configuration s)"
  by (simp add: write_config_def stmt_defs Let_def split: prod.splits)

lemma configuration_answer:
  assumes "guide_inv e fs s" and "pc s = Asking q" and "configuration s = answered a"
  shows "\<exists>a'. configuration (answer q v s) = answered a'"
proof -
  from assms(1,2) have "shape_of (PyDict (configuration s)) = schema" and "\<not> crashed (pc s)"
    by (simp_all add: guide_inv_def pre_write_def)
  from answer_schema [OF this, where q = q and v = v] obtain c where
    c: "case target q of None \<Rightarrow> c = configuration s
        | Some (path, k) \<Rightarrow> store (configuration s) path k (PyStr v) = Return c"
    and eq: "configuration (answer q v s) = c"
    by auto
  show ?thesis
  proof (cases "target q")
    case None
    with c eq assms(3) show ?thesis by auto
  next
    case (Some pk)
    with c eq assms(3) store_answered [of q "fst pk" "snd pk" a v] show ?thesis by auto
  qed
qed

lemma step_waiting: "step e s ev = Some s' \<Longrightarrow> \<not> terminal (pc s)"
  by (cases ev) (auto split: if_splits pc.splits)

lemma reachable_answered:
  "reachable e fs s \<Longrightarrow>
   \<exists>a. configuration s = answered a \<or>
     (pc s = Written \<and> configuration s = remove_empty_value (answered a))"
proof (induction rule: reachable.induct)
  case reach_start
  show ?case by (auto simp: start_def initial_as_answered)
next
  case (reach_step s ev s')
  from step_waiting [OF reach_step.hyps(2)] have wait: "\<not> terminal (pc s)" .
  with reach_step.IH obtain a where a: "configuration s = answered a" by auto
  note inv = reachable_inv [OF reach_step.hyps(1)]
  from reach_step.hyps(2) wait consider
      (cancel) "s' = cancel s" | (answer) q v where "pc s = Asking q" "s' = answer q v s"
    | (confirm) "pc s = Confirming" "s' = write_config e s"
    by (cases ev) (auto split: if_splits pc.splits)
  then show ?case
  proof cases
    case cancel
    with a show ?thesis by (auto simp: configuration_cancel)
  next
    case answer
    with configuration_answer [OF inv answer(1) a] show ?thesis by auto
  next
    case confirm
    with a configuration_write_config [OF confirm(1), of e] pc_write_config [OF confirm(1), of e]
    show ?thesis by auto
  qed
qed

section \<open>Reachable states of the examples\<close>

lemma reachable_confirmed: "reachable e fs (write_config e (confirming fs a))"
  by (rule init_customization_reachable [OF init_customization_confirmed])

lemma reachable_declined: "reachable e fs (cancel (confirming fs a))"
  by (rule init_customization_reachable [OF init_customization_declined])

lemma example_written:
  "write_config example_env (confirming Map.empty defaults) =
     \<lparr>pc = Written, configuration = answered defaults, scope = Some ''local'',
      console =
        [Guide_Rule, Heading ''Directories:'', Heading ''Styles:'',
         Heading ''Camera qualities:'', Qualities_Table,
         Success ''local'', Modify_Hint ''/home/user/scenes/custom_config.yml''],
      files = [''/home/user/scenes/custom_config.yml'' \<mapsto> answered defaults]\<rparr>"
  by (simp add: write_config_confirming document_cases file_name_def local_file_name_def
      path_join_def example_env_def defaults_def)

lemma example_cancelled:
  "cancel (confirming Map.empty defaults) =
     \<lparr>pc = Cancelled, configuration = answered defaults, scope = Some ''local'',
      console =
        [Guide_Rule, Heading ''Directories:'', Heading ''Styles:'',
         Heading ''Camera qualities:'', Qualities_Table, Exit_Guide],
      files = Map.empty\<rparr>"
  by (simp add: cancel_confirming defaults_def)

section \<open>Properties of every reachable state\<close>

text \<open>
  C7. Nothing is written before the user confirms: in every reachable state other than
  the written one, the files on disk are exactly those found at the start. In
  particular a cancellation, by declining or by an interrupt at any prompt, writes
  nothing.
\<close>
theorem guide_no_write_before_confirmation:
  assumes "reachable e fs s" and "pc s \<noteq> Written"
  shows "files s = fs"
  using reachable_inv [OF assms(1)] assms(2)
  by (cases "pc s") (simp_all add: guide_inv_def pre_write_def)

theorem guide_no_write_before_confirmation_witness:
  "reachable example_env Map.empty (cancel (confirming Map.empty defaults)) \<and>
   pc (cancel (confirming Map.empty defaults)) \<noteq> Written \<and>
   files (cancel (confirming Map.empty defaults)) = Map.empty"
  using guide_no_write_before_confirmation
      [OF reachable_declined [of example_env Map.empty defaults]]
    reachable_declined [of example_env Map.empty defaults]
  by (simp add: example_cancelled)

text \<open>
  C9. The guide never fails with an uncaught exception: every subscript it evaluates
  finds its key and every assignment finds a dictionary, so no reachable state has
  crashed, whatever strings the prompts return.
\<close>
theorem guide_never_crashes:
  assumes "reachable e fs s"
  shows "\<not> crashed (pc s)"
  using reachable_inv [OF assms] by (cases "pc s") (simp_all add: guide_inv_def)

theorem guide_never_crashes_witness:
  "reachable example_env Map.empty (write_config example_env (confirming Map.empty defaults)) \<and>
   \<not> crashed (pc (write_config example_env (confirming Map.empty defaults)))"
  using guide_never_crashes [OF reachable_confirmed [of example_env Map.empty defaults]]
    reachable_confirmed [of example_env Map.empty defaults]
  by simp

text \<open>
  C14. Until the file is written the record keeps the shape of the initial record: the
  same keys in the same order at every level, dictionaries where there were
  dictionaries, and every leaf of the type it had. Only leaf values change.
\<close>
theorem guide_keeps_schema:
  assumes "reachable e fs s" and "pc s \<noteq> Written"
  shows "shape_of (PyDict (configuration s)) = shape_of (PyDict initial_configuration)"
  using reachable_inv [OF assms(1)] assms(2)
  by (cases "pc s") (simp_all add: guide_inv_def pre_write_def schema_def)

theorem guide_keeps_schema_witness:
  "reachable example_env Map.empty (cancel (confirming Map.empty defaults)) \<and>
   pc (cancel (confirming Map.empty defaults)) \<noteq> Written \<and>
   shape_of (PyDict (answered defaults)) = shape_of (PyDict initial_configuration)"
  using guide_keeps_schema [OF reachable_declined [of example_env Map.empty defaults]]
    reachable_declined [of example_env Map.empty defaults]
  by (simp add: example_cancelled)

text \<open>
  C27. The guide leaves alone what it does not ask about: every leaf of the initial
  record that no prompt assigns (the mirror flag, the data subdirectory, the import
  line, the font, the window settings, the four named resolutions, the frame rate) has
  its initial value in the record of every reachable state, at every prompt, after a
  cancellation and in the written state, pruned or not.
\<close>
theorem untouched_leaves:
  assumes "reachable e fs s" and "p \<in> set (leaves initial_configuration)"
    and "p \<notin> set asked_leaves"
  shows "lookup (PyDict (configuration s)) p = lookup (PyDict initial_configuration) p"
proof -
  from assms(2,3) have "p \<in> set untouched" by (simp add: untouched_def)
  with reachable_answered [OF assms(1)] show ?thesis
    by (auto simp: untouched_answered simp del: lookup.simps)
qed

theorem untouched_leaves_witness:
  "reachable example_env Map.empty (write_config example_env (confirming Map.empty defaults)) \<and>
   [''style'', ''font''] \<in> set (leaves initial_configuration) \<and>
   [''style'', ''font''] \<notin> set asked_leaves \<and>
   lookup (PyDict (configuration (write_config example_env (confirming Map.empty defaults))))
     [''style'', ''font''] = Some (PyStr ''Consolas'')"
proof -
  have leaf: "[''style'', ''font''] \<in> set (leaves initial_configuration)"
    by (simp add: initial_configuration_def)
  have unasked: "[''style'', ''font''] \<notin> set asked_leaves"
    by (simp add: asked_leaves_def questions_def List.map_filter_simps)
  from untouched_leaves [OF reachable_confirmed [of example_env Map.empty defaults] leaf unasked]
    reachable_confirmed [of example_env Map.empty defaults] leaf unasked
  show ?thesis by (simp add: initial_configuration_def)
qed

text \<open>
  C17. The guide writes at most one file, and only the one the scope names: in the
  written state the files on disk are those found at the start with one entry set,
  at the global path when the scope is \<open>global\<close> and at the local path otherwise, and
  that entry is the record the guide holds.
\<close>
theorem guide_single_write:
  assumes "reachable e fs s" and "pc s = Written"
  shows "files s =
     fs((if scope s = Some ''global'' then global_file_name e else local_file_name e)
        \<mapsto> configuration s)"
  using reachable_inv [OF assms(1)] assms(2)
  by (auto simp: guide_inv_def written_def decide_def)

theorem guide_single_write_witness:
  "reachable example_env Map.empty (write_config example_env (confirming Map.empty defaults)) \<and>
   pc (write_config example_env (confirming Map.empty defaults)) = Written \<and>
   files (write_config example_env (confirming Map.empty defaults)) =
     [''/home/user/scenes/custom_config.yml'' \<mapsto> answered defaults]"
  using guide_single_write [OF reachable_confirmed [of example_env Map.empty defaults]]
    reachable_confirmed [of example_env Map.empty defaults]
  by (simp add: example_written)

text \<open>
  C22. Every run of the guide is over after at most eleven events (ten prompts and the
  confirmation): each accepted event lowers the number of prompts that remain, and a
  state with none remaining is a final state that accepts no further event.
\<close>
theorem guide_terminates:
  assumes "init_customization e fs evs = Some s"
  shows "length evs + remaining (pc s) \<le> 11 \<and>
     (remaining (pc s) = 0 \<longleftrightarrow> terminal (pc s)) \<and>
     (terminal (pc s) \<longleftrightarrow> (\<forall>ev. step e s ev = None))"
proof -
  from assms have "run e (start fs) evs = Some s" by (simp add: init_customization_def)
  from run_remaining [OF reach_start this] have "length evs + remaining (pc s) \<le> 11"
    by (simp add: start_def)
  moreover have "terminal (pc s) \<longleftrightarrow> (\<forall>ev. step e s ev = None)"
  proof
    assume "terminal (pc s)"
    then have "step e s ev = None" for ev
      by (cases ev; cases "pc s") simp_all
    then show "\<forall>ev. step e s ev = None" by blast
  next
    assume "\<forall>ev. step e s ev = None"
    then have "step e s KeyboardInterrupt = None" by blast
    then show "terminal (pc s)" by (simp split: if_splits)
  qed
  ultimately show ?thesis by (simp add: remaining_0)
qed

theorem guide_terminates_witness:
  "init_customization example_env Map.empty (script defaults @ [Confirm True]) =
     Some (write_config example_env (confirming Map.empty defaults)) \<and>
   length (script defaults @ [Confirm True]) = 11 \<and>
   terminal (pc (write_config example_env (confirming Map.empty defaults)))"
  using guide_terminates [OF init_customization_confirmed [of example_env Map.empty defaults]]
    init_customization_confirmed [of example_env Map.empty defaults]
  by (simp add: script_def questions_def example_written)

text \<open>
  C34. The closing message tells the outcome: the exit message is on the console exactly
  in the cancelled state and a success message exactly in the written state, so a
  cancelled run never reports success and a written file is always reported.
\<close>
theorem guide_messages:
  assumes "reachable e fs s"
  shows "(Exit_Guide \<in> set (console s) \<longleftrightarrow> pc s = Cancelled) \<and>
     ((\<exists>sc. Success sc \<in> set (console s)) \<longleftrightarrow> pc s = Written)"
  using reachable_inv [OF assms] transcript_plain
  by (cases "pc s") (auto simp: guide_inv_def written_def)

theorem guide_messages_witness:
  "reachable example_env Map.empty (cancel (confirming Map.empty defaults)) \<and>
   Exit_Guide \<in> set (console (cancel (confirming Map.empty defaults))) \<and>
   Success ''local'' \<notin> set (console (cancel (confirming Map.empty defaults)))"
  using guide_messages [OF reachable_declined [of example_env Map.empty defaults]]
    reachable_declined [of example_env Map.empty defaults]
  by (simp add: example_cancelled)

text \<open>
  C25. The guide implements the state machine of the specification: mapping each program
  point to its phase (scope, directories, style, quality, confirmation, written,
  cancelled), every step of a reachable state either stays in its phase or is a
  transition of that machine, so the phases are passed in order, never re-entered, and
  an interrupt leads from any waiting phase to the cancelled one.
\<close>
theorem guide_refines_phases:
  assumes "reachable e fs s" and "step e s ev = Some s'"
  shows "\<exists>ph ph'. phase_of (pc s) = Some ph \<and> phase_of (pc s') = Some ph' \<and>
     (ph' = ph \<or> phase_step ph ph')"
proof -
  note inv = reachable_inv [OF assms(1)]
  from assms(2) have wait: "\<not> terminal (pc s)"
    by (cases ev) (auto split: if_splits pc.splits)
  from phase_waiting [OF wait] obtain ph where ph: "phase_of (pc s) = Some ph"
    "ph \<noteq> PhaseWritten" "ph \<noteq> PhaseCancelled" by blast
  show ?thesis
  proof (cases ev)
    case KeyboardInterrupt
    with pc_step [OF inv assms(2)] ph show ?thesis
      by (auto intro: phase_step.interrupted)
  next
    case (Reply v)
    with assms(2) obtain q where q: "pc s = Asking q" by (auto split: pc.splits)
    with Reply pc_step [OF inv assms(2)] phase_next_pc [of q] show ?thesis by simp
  next
    case (Confirm b)
    with assms(2) have "pc s = Confirming" by (auto split: pc.splits)
    with Confirm pc_step [OF inv assms(2)] show ?thesis
      by (auto intro: phase_step.intros)
  qed
qed

theorem guide_refines_phases_witness:
  "reachable example_env Map.empty (confirming Map.empty defaults) \<and>
   step example_env (confirming Map.empty defaults) (Confirm True) =
     Some (write_config example_env (confirming Map.empty defaults)) \<and>
   phase_of (pc (confirming Map.empty defaults)) = Some ConfirmingWrite \<and>
   phase_of (pc (write_config example_env (confirming Map.empty defaults))) = Some PhaseWritten \<and>
   phase_step ConfirmingWrite PhaseWritten"
proof -
  have reach: "reachable example_env Map.empty (confirming Map.empty defaults)"
    by (rule run_reachable [OF reach_start run_script])
  have step: "step example_env (confirming Map.empty defaults) (Confirm True) =
      Some (write_config example_env (confirming Map.empty defaults))"
    by (simp add: confirming_def)
  have pcs: "pc (confirming Map.empty defaults) = Confirming"
    "pc (write_config example_env (confirming Map.empty defaults)) = Written"
    by (simp_all add: example_written) (simp add: confirming_def)
  from guide_refines_phases [OF reach step] reach step show ?thesis
    by (simp add: pcs phase_step.confirmed)
qed

text \<open>
  C23. The guide can always be finished: from every reachable state that waits at a
  prompt, answering the prompts that remain (with any strings) and confirming leads to
  the written state, in exactly as many events as prompts remain.
\<close>
theorem guide_can_finish:
  assumes "reachable e fs s" and "\<not> terminal (pc s)"
  shows "\<exists>s'. run e s (completion a (pc s)) = Some s' \<and> pc s' = Written \<and>
     length (completion a (pc s)) = remaining (pc s)"
  using run_completion [OF reachable_inv [OF assms(1)] assms(2) refl, of a]
  by (simp add: length_completion)

theorem guide_can_finish_witness:
  "reachable example_env Map.empty (start Map.empty) \<and> \<not> terminal (pc (start Map.empty)) \<and>
   (\<exists>s'. run example_env (start Map.empty) (completion defaults (pc (start Map.empty))) = Some s' \<and>
      pc s' = Written) \<and>
   length (completion defaults (pc (start Map.empty))) = 11"
  using guide_can_finish [OF reach_start, of Map.empty example_env defaults]
  by (simp add: start_def reach_start [unfolded start_def])

end
