(* ===== verification/Heap.thy ===== *)
theory Heap
  imports Remove_Empty
begin

text \<open>
  \<^verbatim>\<open>remove_empty_value\<close> as the source runs it: on dictionary objects that are changed
  in place and reached through references (\<^verbatim>\<open>src/manimlib/utils/init_config.py\<close>,
  lines 27 to 32). A heap maps addresses to dictionary objects; an entry of an object
  holds a string, a boolean, an integer or the address of another object (\<open>hval\<close>).
  \<open>visit_in_place\<close> is the body of the \<^verbatim>\<open>for\<close> loop on the object at an address,
  \<open>for_each_comp\<close> (of theory \<open>Prelude\<close>) the loop over the snapshot of the keys, and
  \<open>remove_empty_in_place\<close> the routine, with the depth of the recursion as fuel: the
  value \<open>None\<close> stands for a recursion deeper than the fuel, which is what happens at
  every depth on a dictionary that contains itself.

  \<open>children\<close>, \<open>reach\<close> and \<open>bounded\<close> describe the references between objects
  (\<open>bounded n h a\<close>: no chain of nested dictionaries below \<open>a\<close> is longer than \<open>n\<close>),
  \<open>prune_on\<close> removes the empty strings from a set of objects, and \<open>tree_of\<close> reads
  the nested dictionary that the heap represents below an address. The theorems give
  the effect of the routine on the heap exactly, for shared and for cyclic objects, and
  show that it refines \<open>remove_empty_value\<close> of theory \<open>Remove_Empty\<close> and agrees
  with the loop on values, \<open>remove_empty_loop\<close>, for every recursion depth.
\<close>

section \<open>Objects and references\<close>

type_synonym addr = nat

datatype hval = HStr string | HBool bool | HInt int | HRef addr

type_synonym hobj = "hval entries"

type_synonym heap = "addr \<Rightarrow> hobj"

fun refs :: "hobj \<Rightarrow> addr list" where
  "refs [] = []"
| "refs ((k, HRef b) # d) = b # refs d"
| "refs ((k, v) # d) = refs d"

definition children :: "heap \<Rightarrow> addr \<Rightarrow> addr list" where
  "children h a = refs (h a)"

primrec bounded :: "nat \<Rightarrow> heap \<Rightarrow> addr \<Rightarrow> bool" where
  "bounded 0 h a = False"
| "bounded (Suc n) h a = list_all (bounded n h) (children h a)"

inductive_set reach :: "heap \<Rightarrow> addr \<Rightarrow> addr set" for h :: heap and a :: addr where
  reach_self: "a \<in> reach h a"
| reach_child: "b \<in> reach h a \<Longrightarrow> c \<in> set (children h b) \<Longrightarrow> c \<in> reach h a"

definition wf_heap :: "heap \<Rightarrow> bool" where
  "wf_heap h \<longleftrightarrow> (\<forall>a. distinct (keys (h a)))"

section \<open>The routine on the heap\<close>

definition visit_in_place ::
  "(heap \<Rightarrow> addr \<Rightarrow> heap result option) \<Rightarrow> addr \<Rightarrow> heap \<Rightarrow> string \<Rightarrow> heap result option" where
  "visit_in_place recurse a h key =
     (case getitem (h a) key of
        Inl e \<Rightarrow> Some (Raise e)
      | Inr v \<Rightarrow>
          if v = HStr [] then
            (case pop (h a) key of
               Inl e \<Rightarrow> Some (Raise e)
             | Inr (u, d') \<Rightarrow> Some (Return (h(a := d'))))
          else (case v of HRef b \<Rightarrow> recurse h b | _ \<Rightarrow> Some (Return h)))"

primrec remove_empty_in_place :: "nat \<Rightarrow> heap \<Rightarrow> addr \<Rightarrow> heap result option" where
  "remove_empty_in_place 0 h a = None"
| "remove_empty_in_place (Suc n) h a =
     for_each_comp (visit_in_place (remove_empty_in_place n) a) h (keys (h a))"

section \<open>What the heap represents\<close>

fun value_of :: "(addr \<Rightarrow> dict) \<Rightarrow> hval \<Rightarrow> pyval" where
  "value_of t (HStr s) = PyStr s"
| "value_of t (HBool b) = PyBool b"
| "value_of t (HInt i) = PyInt i"
| "value_of t (HRef b) = PyDict (t b)"

primrec tree_of :: "nat \<Rightarrow> heap \<Rightarrow> addr \<Rightarrow> dict" where
  "tree_of 0 h a = []"
| "tree_of (Suc n) h a = map (\<lambda>(k, v). (k, value_of (tree_of n h) v)) (h a)"

definition live :: "string \<times> hval \<Rightarrow> bool" where
  "live kv = (snd kv \<noteq> HStr [])"

definition prune_on :: "addr set \<Rightarrow> heap \<Rightarrow> heap" where
  "prune_on S h = (\<lambda>b. if b \<in> S then filter live (h b) else h b)"

text \<open>
  The loop of \<^verbatim>\<open>remove_empty_value\<close> on the object at \<open>a\<close>, seen between two
  iterations: the entries \<open>seen\<close> have been visited and kept, the entries \<open>todo\<close> are
  still to come (\<open>loop_pre\<close>), and \<open>loop_result\<close> is what the rest of the loop then
  returns.
\<close>

definition loop_pre :: "nat \<Rightarrow> heap \<Rightarrow> addr \<Rightarrow> hobj \<Rightarrow> hobj \<Rightarrow> bool" where
  "loop_pre n h a seen todo \<longleftrightarrow>
     wf_heap h \<and> h a = seen @ todo \<and>
     (\<forall>b \<in> set (refs todo). bounded n h b \<longrightarrow> a \<notin> reach h b)"

definition loop_result :: "nat \<Rightarrow> heap \<Rightarrow> addr \<Rightarrow> hobj \<Rightarrow> hobj \<Rightarrow> heap result option" where
  "loop_result n h a seen todo =
     (if list_all (bounded n h) (refs todo)
      then Some (Return ((prune_on (\<Union>b \<in> set (refs todo). reach h b) h)
                   (a := seen @ filter live todo)))
      else None)"

section \<open>Assignment behind subscripts, on the heap\<close>

fun resolve :: "heap \<Rightarrow> hval \<Rightarrow> string list \<Rightarrow> addr result" where
  "resolve h (HRef a) [] = Return a"
| "resolve h (HRef a) (p # ps) = and_then (getitem (h a) p) (\<lambda>v. resolve h v ps)"
| "resolve h v ps = Raise TypeError"

definition store_in_place :: "heap \<Rightarrow> hval \<Rightarrow> string list \<Rightarrow> string \<Rightarrow> hval \<Rightarrow> heap result" where
  "store_in_place h r path k v =
     and_then (resolve h r path) (\<lambda>b. Return (h(b := setitem (h b) k v)))"

fun separate :: "addr set list \<Rightarrow> bool" where
  "separate [] = True"
| "separate (S # Ss) = ((\<forall>T \<in> set Ss. S \<inter> T = {}) \<and> separate Ss)"

primrec tree_shaped :: "nat \<Rightarrow> heap \<Rightarrow> addr \<Rightarrow> bool" where
  "tree_shaped 0 h a = True"
| "tree_shaped (Suc n) h a =
     (separate (map (reach h) (children h a)) \<and> list_all (tree_shaped n h) (children h a))"

definition represents :: "nat \<Rightarrow> heap \<Rightarrow> addr \<Rightarrow> dict \<Rightarrow> bool" where
  "represents n h a d \<longleftrightarrow> wf_heap h \<and> bounded n h a \<and> tree_shaped n h a \<and> tree_of n h a = d"

section \<open>Examples of heaps\<close>

definition shared_heap :: heap where
  "shared_heap =
     (\<lambda>a. [])
       (0 := [(''a'', HRef 1), (''b'', HRef 1)],
        1 := [(''x'', HStr ''old'')])"

definition example_heap :: heap where
  "example_heap =
     (\<lambda>a. [])
       (0 := [(''directories'', HRef 1), (''style'', HRef 2), (''fps'', HInt 30)],
        1 := [(''base'', HStr []), (''subdirs'', HRef 3)],
        2 := [(''tex_template'', HStr []), (''font'', HStr ''Consolas'')],
        3 := [(''output'', HStr ''videos''), (''data'', HStr [])])"

section \<open>References\<close>

lemma live_simp [simp]: "live (k, v) \<longleftrightarrow> v \<noteq> HStr []"
  by (simp add: live_def)

lemma live_eq: "live = (\<lambda>kv. snd kv \<noteq> HStr [])"
  by (simp add: fun_eq_iff live_def)

lemma refs_append [simp]: "refs (d @ d') = refs d @ refs d'"
  by (induction d rule: refs.induct) simp_all

lemma refs_filter_live [simp]: "refs (filter live d) = refs d"
  by (induction d rule: refs.induct) (simp_all add: live_def)

lemma refs_leaf: "\<not> (\<exists>b. v = HRef b) \<Longrightarrow> refs ((k, v) # d) = refs d"
  by (cases v) simp_all

lemma reach_unfold: "reach h a = insert a (\<Union>b \<in> set (children h a). reach h b)"
proof (intro set_eqI iffI)
  fix c
  assume "c \<in> reach h a"
  then show "c \<in> insert a (\<Union>b \<in> set (children h a). reach h b)"
  proof (induction rule: reach.induct)
    case reach_self
    show ?case by simp
  next
    case (reach_child b c)
    then show ?case by (auto intro: reach.intros)
  qed
next
  fix c
  assume "c \<in> insert a (\<Union>b \<in> set (children h a). reach h b)"
  then consider "c = a" | b where "b \<in> set (children h a)" "c \<in> reach h b" by auto
  then show "c \<in> reach h a"
  proof cases
    case 1
    then show ?thesis by (simp add: reach_self)
  next
    case 2
    from 2(2) 2(1) show ?thesis
      by (induction rule: reach.induct) (auto intro: reach.intros)
  qed
qed

lemma reach_same_children:
  assumes "\<And>b. children h' b = children h b"
  shows "reach h' a = reach h a"
proof (intro set_eqI iffI)
  fix c
  assume "c \<in> reach h' a"
  then show "c \<in> reach h a"
    by (induction rule: reach.induct) (auto simp: assms intro: reach.intros)
next
  fix c
  assume "c \<in> reach h a"
  then show "c \<in> reach h' a"
    by (induction rule: reach.induct) (auto simp: assms [symmetric] intro: reach.intros)
qed

lemma bounded_same_children:
  assumes "\<And>b. children h' b = children h b"
  shows "bounded n h' a = bounded n h a"
  by (induction n arbitrary: a) (simp_all add: assms list_all_iff)

lemma bounded_acyclic:
  "bounded n h b \<Longrightarrow> c \<in> reach h b \<Longrightarrow> b \<notin> set (children h c)"
proof (induction n arbitrary: b c)
  case 0
  then show ?case by simp
next
  case (Suc n)
  show ?case
  proof
    assume cyc: "b \<in> set (children h c)"
    from Suc.prems(2) consider "c = b" | b' where "b' \<in> set (children h b)" "c \<in> reach h b'"
      by (subst (asm) reach_unfold) auto
    then show False
    proof cases
      case 1
      with cyc Suc.prems(1) have "bounded n h b" by (simp add: list_all_iff)
      from Suc.IH [OF this reach_self] cyc 1 show False by simp
    next
      case 2
      from 2(1) Suc.prems(1) have "bounded n h b'" by (simp add: list_all_iff)
      moreover from 2(2) cyc have "b \<in> reach h b'" by (rule reach_child)
      ultimately have "b' \<notin> set (children h b)" by (rule Suc.IH)
      with 2(1) show False by simp
    qed
  qed
qed

lemma bounded_mono: "bounded n h a \<Longrightarrow> bounded (n + m) h a"
  by (induction n arbitrary: a) (auto simp: list_all_iff)

section \<open>Pruning a set of objects\<close>

lemma filter_live_idem [simp]: "filter live (filter live d) = filter live d"
  by simp

lemma prune_on_empty [simp]: "prune_on {} h = h"
  by (simp add: prune_on_def)

lemma prune_on_prune_on: "prune_on S (prune_on T h) = prune_on (T \<union> S) h"
  by (auto simp: prune_on_def fun_eq_iff)

lemma children_prune_on [simp]: "children (prune_on S h) b = children h b"
  by (simp add: children_def prune_on_def)

lemma wf_heap_prune_on: "wf_heap h \<Longrightarrow> wf_heap (prune_on S h)"
  by (simp add: wf_heap_def prune_on_def keys_def distinct_map_filter)

lemma prune_on_outside: "b \<notin> S \<Longrightarrow> prune_on S h b = h b"
  by (simp add: prune_on_def)

lemma prune_on_upd: "(prune_on S (h(a := d)))(a := d') = (prune_on S h)(a := d')"
  by (auto simp: prune_on_def fun_eq_iff)

lemma getitem_middle:
  "k \<notin> set (keys seen) \<Longrightarrow> getitem (seen @ (k, v) # rest) k = Return v"
  by (simp add: getitem_def map_of_append_absent set_keys del: map_of_append)

lemma pop_middle:
  "k \<notin> set (keys seen) \<Longrightarrow> k \<notin> set (keys rest) \<Longrightarrow>
   pop (seen @ (k, v) # rest) k = Return (v, seen @ rest)"
  by (simp add: pop_def map_of_append_absent set_keys del: map_of_append)

section \<open>The loop\<close>

lemma visit_in_place_simps:
  "getitem (h a) k = Return (HStr s) \<Longrightarrow> s \<noteq> [] \<Longrightarrow> visit_in_place recurse a h k = Some (Return h)"
  "getitem (h a) k = Return (HBool x) \<Longrightarrow> visit_in_place recurse a h k = Some (Return h)"
  "getitem (h a) k = Return (HInt i) \<Longrightarrow> visit_in_place recurse a h k = Some (Return h)"
  "getitem (h a) k = Return (HRef b) \<Longrightarrow> visit_in_place recurse a h k = recurse h b"
  "getitem (h a) k = Return (HStr []) \<Longrightarrow> pop (h a) k = Return (u, d') \<Longrightarrow>
   visit_in_place recurse a h k = Some (Return (h(a := d')))"
  by (simp_all add: visit_in_place_def)

lemma loop_result_Nil: "h a = seen \<Longrightarrow> loop_result n h a seen [] = Some (Return h)"
  by (auto simp: loop_result_def)

lemma loop_result_leaf:
  "v \<noteq> HStr [] \<Longrightarrow> refs ((k, v) # rest) = refs rest \<Longrightarrow>
   loop_result n h a (seen @ [(k, v)]) rest = loop_result n h a seen ((k, v) # rest)"
  by (simp add: loop_result_def)

lemma loop_result_unbounded:
  "\<not> bounded n h b \<Longrightarrow> loop_result n h a seen ((k, HRef b) # rest) = None"
  by (simp add: loop_result_def)

lemma loop_result_ref:
  assumes "bounded n h b"
  shows "loop_result n (prune_on (reach h b) h) a (seen @ [(k, HRef b)]) rest =
     loop_result n h a seen ((k, HRef b) # rest)"
proof -
  have same: "children (prune_on (reach h b) h) c = children h c" for c by simp
  show ?thesis
    unfolding loop_result_def reach_same_children [OF same] bounded_same_children [OF same]
      prune_on_prune_on
    using assms by simp
qed

lemma loop_result_empty:
  assumes "loop_pre n h a seen ((k, HStr []) # rest)"
  shows "loop_result n (h(a := seen @ rest)) a seen rest =
     loop_result n h a seen ((k, HStr []) # rest)"
proof -
  have same: "children (h(a := seen @ rest)) c = children h c" for c
    using assms by (simp add: children_def loop_pre_def)
  show ?thesis
    unfolding loop_result_def reach_same_children [OF same] bounded_same_children [OF same]
      prune_on_upd
    by simp
qed

lemma loop_pre_head:
  assumes "loop_pre n h a seen ((k, v) # rest)"
  shows "getitem (h a) k = Return v" and "pop (h a) k = Return (v, seen @ rest)"
proof -
  from assms have wf: "wf_heap h" and obj: "h a = seen @ (k, v) # rest"
    by (simp_all add: loop_pre_def)
  from wf have "distinct (keys (h a))" by (simp add: wf_heap_def)
  then have "distinct (keys (seen @ (k, v) # rest))" unfolding obj .
  then have "k \<notin> set (keys seen)" "k \<notin> set (keys rest)" by auto
  with obj show "getitem (h a) k = Return v" "pop (h a) k = Return (v, seen @ rest)"
    by (simp_all add: getitem_middle pop_middle)
qed

lemma loop_pre_leaf:
  "loop_pre n h a seen ((k, v) # rest) \<Longrightarrow> refs ((k, v) # rest) = refs rest \<Longrightarrow>
   loop_pre n h a (seen @ [(k, v)]) rest"
  by (simp add: loop_pre_def)

lemma loop_pre_empty:
  assumes "loop_pre n h a seen ((k, HStr []) # rest)"
  shows "loop_pre n (h(a := seen @ rest)) a seen rest"
proof -
  from assms have obj: "h a = seen @ (k, HStr []) # rest" and wf: "wf_heap h"
    by (simp_all add: loop_pre_def)
  have same: "children (h(a := seen @ rest)) c = children h c" for c
    using obj by (simp add: children_def)
  from wf have "distinct (keys (h a))" by (simp add: wf_heap_def)
  then have "distinct (keys (seen @ (k, HStr []) # rest))" unfolding obj .
  with wf have "wf_heap (h(a := seen @ rest))" by (auto simp: wf_heap_def)
  with assms show ?thesis
    unfolding loop_pre_def reach_same_children [OF same] bounded_same_children [OF same]
    by simp
qed

lemma loop_pre_ref:
  assumes "loop_pre n h a seen ((k, HRef b) # rest)" and "bounded n h b"
  shows "loop_pre n (prune_on (reach h b) h) a (seen @ [(k, HRef b)]) rest"
proof -
  have same: "children (prune_on (reach h b) h) c = children h c" for c by simp
  from assms have "a \<notin> reach h b" by (simp add: loop_pre_def)
  with assms(1) show ?thesis
    unfolding loop_pre_def reach_same_children [OF same] bounded_same_children [OF same]
    by (simp add: prune_on_outside wf_heap_prune_on)
qed

lemma visit_in_place_step:
  "visit_in_place recurse a h k = Some (Return h') \<Longrightarrow>
   for_each_comp (visit_in_place recurse a) h (keys ((k, v) # rest)) =
   for_each_comp (visit_in_place recurse a) h' (keys rest)"
  by simp

lemma loop_in_place:
  assumes recurse: "\<And>h b. wf_heap h \<Longrightarrow>
      recurse h b = (if bounded n h b then Some (Return (prune_on (reach h b) h)) else None)"
  shows "loop_pre n h a seen todo \<Longrightarrow>
     for_each_comp (visit_in_place recurse a) h (keys todo) = loop_result n h a seen todo"
proof (induction todo arbitrary: h seen)
  case Nil
  then show ?case by (simp add: loop_result_Nil loop_pre_def)
next
  case (Cons kv rest)
  obtain k v where kv: "kv = (k, v)" by (cases kv)
  note pre = Cons.prems [unfolded kv]
  note head = loop_pre_head [OF pre]
  from pre have wf: "wf_heap h" by (simp add: loop_pre_def)
  consider (empty) "v = HStr []" | (ref) b where "v = HRef b"
    | (leaf) "v \<noteq> HStr []" "refs ((k, v) # rest) = refs rest"
        "visit_in_place recurse a h k = Some (Return h)"
    using head(1) by (cases v) (auto simp: visit_in_place_simps)
  then show ?case
  proof cases
    case empty
    note pre' = pre [unfolded empty]
    from head empty
    have "visit_in_place recurse a h k = Some (Return (h(a := seen @ rest)))"
      by (simp add: visit_in_place_simps)
    from trans [OF visit_in_place_step [OF this] Cons.IH [OF loop_pre_empty [OF pre']]]
    show ?thesis unfolding kv empty loop_result_empty [OF pre'] .
  next
    case (ref b)
    show ?thesis
    proof (cases "bounded n h b")
      case True
      with head(1) ref recurse [OF wf, of b]
      have "visit_in_place recurse a h k = Some (Return (prune_on (reach h b) h))"
        by (simp add: visit_in_place_simps)
      from trans [OF visit_in_place_step [OF this]
          Cons.IH [OF loop_pre_ref [OF pre [unfolded ref] True]]]
      show ?thesis unfolding kv ref loop_result_ref [OF True] .
    next
      case False
      with head(1) ref recurse [OF wf, of b] show ?thesis
        by (simp add: kv visit_in_place_simps loop_result_unbounded)
    qed
  next
    case leaf
    show ?thesis
      unfolding kv visit_in_place_step [OF leaf(3)] Cons.IH [OF loop_pre_leaf [OF pre leaf(2)]]
      using leaf(1,2) by (rule loop_result_leaf)
  qed
qed

lemma remove_empty_in_place_exact:
  "wf_heap h \<Longrightarrow>
   remove_empty_in_place n h a =
     (if bounded n h a then Some (Return (prune_on (reach h a) h)) else None)"
proof (induction n arbitrary: h a)
  case 0
  show ?case by simp
next
  case (Suc n)
  have "loop_pre n h a [] (h a)"
    using Suc.prems bounded_acyclic [of n h _ a] by (auto simp: loop_pre_def children_def)
  from loop_in_place [of "remove_empty_in_place n" n, OF Suc.IH this]
  have "remove_empty_in_place (Suc n) h a =
     (if list_all (bounded n h) (refs (h a))
      then Some (Return ((prune_on (\<Union>b \<in> set (refs (h a)). reach h b) h)(a := filter live (h a))))
      else None)"
    by (simp add: loop_result_def)
  moreover have "(prune_on (\<Union>b \<in> set (refs (h a)). reach h b) h)(a := filter live (h a)) =
      prune_on (reach h a) h"
    by (subst (2) reach_unfold) (auto simp: prune_on_def fun_eq_iff children_def)
  ultimately show ?case by (simp add: children_def)
qed

section \<open>The heap and the tree it represents\<close>

lemma refs_mem: "(k, HRef b) \<in> set d \<Longrightarrow> b \<in> set (refs d)"
  by (induction d rule: refs.induct) auto

lemma value_of_eq_empty [simp]: "value_of t v = PyStr [] \<longleftrightarrow> v = HStr []"
  by (cases v) simp_all

lemma reach_child_subset: "b \<in> set (children h a) \<Longrightarrow> reach h b \<subseteq> reach h a"
  by (subst (2) reach_unfold) auto

lemma tree_of_fuel: "bounded n h a \<Longrightarrow> tree_of (n + m) h a = tree_of n h a"
proof (induction n arbitrary: a)
  case 0
  then show ?case by simp
next
  case (Suc n)
  have "value_of (tree_of (n + m) h) v = value_of (tree_of n h) v" if "(k, v) \<in> set (h a)" for k v
  proof (cases v)
    case (HRef b)
    with that have "b \<in> set (children h a)" by (auto simp: children_def dest: refs_mem)
    with Suc.prems have "bounded n h b" by (simp add: list_all_iff)
    with HRef show ?thesis by (simp add: Suc.IH)
  qed simp_all
  then show ?case by (auto intro!: map_cong)
qed

lemma tree_of_prune_on:
  "bounded n h a \<Longrightarrow> reach h a \<subseteq> S \<Longrightarrow>
   tree_of n (prune_on S h) a = remove_empty_value (tree_of n h a)"
proof (induction n arbitrary: a)
  case 0
  then show ?case by simp
next
  case (Suc n)
  let ?h = "prune_on S h"
  from Suc.prems(2) have a: "a \<in> S" by (auto intro: reach_self)
  have val: "value_of (tree_of n ?h) v = prune_val (value_of (tree_of n h) v)"
    if "(k, v) \<in> set (h a)" for k v
  proof (cases v)
    case (HRef b)
    with that have b: "b \<in> set (children h a)" by (auto simp: children_def dest: refs_mem)
    with Suc.prems(1) have "bounded n h b" by (simp add: list_all_iff)
    moreover from b Suc.prems(2) have "reach h b \<subseteq> S" by (auto dest: reach_child_subset)
    ultimately show ?thesis using HRef by (simp add: Suc.IH)
  qed simp_all
  have "tree_of (Suc n) ?h a =
      map (\<lambda>(k, v). (k, value_of (tree_of n ?h) v)) (filter live (h a))"
    using a by (simp add: prune_on_def)
  also have "\<dots> = map (\<lambda>(k, v). (k, prune_val (value_of (tree_of n h) v))) (filter live (h a))"
    using val by (auto intro!: map_cong)
  also have "\<dots> = remove_empty_value (tree_of (Suc n) h a)"
    by (simp add: remove_empty_value_map_filter filter_map comp_def kept_def live_eq
        case_prod_unfold)
  finally show ?case .
qed

section \<open>Assignment in place and assignment on the tree\<close>

lemma resolve_Cons:
  "resolve h r (p # ps) = Return b \<longleftrightarrow>
     (\<exists>a v. r = HRef a \<and> map_of (h a) p = Some v \<and> resolve h v ps = Return b)"
  by (cases r) (auto simp: getitem_def and_then_eq_Return split: option.splits)

lemma resolve_is_ref: "resolve h v ps = Return b \<Longrightarrow> \<exists>c. v = HRef c"
  by (cases v) simp_all

lemma map_of_refs: "map_of d p = Some (HRef c) \<Longrightarrow> c \<in> set (refs d)"
  by (auto dest: map_of_SomeD refs_mem)

lemma resolve_reach: "resolve h (HRef a) path = Return b \<Longrightarrow> b \<in> reach h a"
proof (induction path arbitrary: a)
  case Nil
  then show ?case by (simp add: reach_self)
next
  case (Cons p ps)
  from Cons.prems obtain v where v: "map_of (h a) p = Some v" and r: "resolve h v ps = Return b"
    unfolding resolve_Cons by blast
  from r obtain c where c: "v = HRef c" by (auto dest: resolve_is_ref)
  with v have "c \<in> set (children h a)" by (simp add: children_def map_of_refs)
  moreover from r c have "b \<in> reach h c" by (simp add: Cons.IH)
  ultimately show ?case by (auto dest: reach_child_subset)
qed

lemma tree_of_cong:
  "(\<And>x. x \<in> reach h a \<Longrightarrow> h' x = h x) \<Longrightarrow> tree_of n h' a = tree_of n h a"
proof (induction n arbitrary: a)
  case 0
  show ?case by simp
next
  case (Suc n)
  have "value_of (tree_of n h') v = value_of (tree_of n h) v" if "(k, v) \<in> set (h a)" for k v
  proof (cases v)
    case (HRef c)
    with that have "c \<in> set (children h a)" by (auto simp: children_def dest: refs_mem)
    then have "reach h c \<subseteq> reach h a" by (rule reach_child_subset)
    with Suc.prems HRef show ?thesis by (auto intro: Suc.IH)
  qed simp_all
  moreover have "h' a = h a" by (rule Suc.prems) (rule reach_self)
  ultimately show ?case by (auto intro!: map_cong)
qed

lemma separate_entries:
  "separate (map (reach h) (refs d)) \<Longrightarrow> distinct (keys d) \<Longrightarrow>
   (p, HRef c) \<in> set d \<Longrightarrow> (q, HRef c') \<in> set d \<Longrightarrow> p \<noteq> q \<Longrightarrow>
   reach h c \<inter> reach h c' = {}"
proof (induction d rule: refs.induct)
  case (2 k b d)
  then show ?case by (auto dest: refs_mem simp: set_keys)
qed auto

lemma map_update_one:
  "distinct (map fst d) \<Longrightarrow> (p, u) \<in> set d \<Longrightarrow>
   (\<And>q w. (q, w) \<in> set d \<Longrightarrow> q \<noteq> p \<Longrightarrow> f' w = f w) \<Longrightarrow>
   map (\<lambda>(k, v). (k, f' v)) d = AList.update p (f' u) (map (\<lambda>(k, v). (k, f v)) d)"
proof (induction d)
  case Nil
  then show ?case by simp
next
  case (Cons kv d)
  obtain k v where kv: "kv = (k, v)" by (cases kv)
  show ?case
  proof (cases "k = p")
    case True
    with Cons.prems kv have u: "u = v" by (auto simp: rev_image_eqI)
    have "q \<noteq> p" if "(q, w) \<in> set d" for q w
      using that True Cons.prems(1) kv by force
    with Cons.prems(3) have "map (\<lambda>(k, v). (k, f' v)) d = map (\<lambda>(k, v). (k, f v)) d"
      by (intro map_cong) auto
    with True kv u show ?thesis by simp
  next
    case False
    with Cons kv show ?thesis by auto
  qed
qed

lemma tree_of_upd_outside:
  "b \<notin> reach h c \<Longrightarrow> tree_of n (h(b := d)) c = tree_of n h c"
  by (rule tree_of_cong) auto

lemma get_tree_of:
  "map_of (h a) p = Some v \<Longrightarrow>
   getitem (tree_of (Suc n) h a) p = Return (value_of (tree_of n h) v)"
  by (simp add: getitem_def map_of_map)

lemma tree_of_setitem_here:
  assumes "bounded (Suc m) h a"
  shows "tree_of (Suc m) (h(a := setitem (h a) k (HStr s))) a =
     setitem (tree_of (Suc m) h a) k (PyStr s)"
proof -
  define t' where "t' = tree_of m (h(a := setitem (h a) k (HStr s)))"
  have "value_of t' w = value_of (tree_of m h) w" if "(q, w) \<in> set (h a)" for q w
  proof (cases w)
    case (HRef c)
    with that have c: "c \<in> set (children h a)" by (auto simp: children_def dest: refs_mem)
    with assms have "bounded m h c" by (simp add: list_all_iff)
    with c have "a \<notin> reach h c" by (auto dest: bounded_acyclic)
    with HRef show ?thesis by (simp add: t'_def tree_of_upd_outside)
  qed simp_all
  then have same: "map (\<lambda>(k, v). (k, value_of t' v)) (h a) = tree_of (Suc m) h a"
    by (auto intro!: map_cong)
  have "tree_of (Suc m) (h(a := setitem (h a) k (HStr s))) a =
      map (\<lambda>(k, v). (k, value_of t' v)) (setitem (h a) k (HStr s))"
    by (simp add: t'_def)
  also have "\<dots> = setitem (map (\<lambda>(k, v). (k, value_of t' v)) (h a)) k (PyStr s)"
    by (simp add: setitem_def map_values_update)
  finally show ?thesis unfolding same .
qed

lemma tree_of_setitem_below:
  assumes wf: "wf_heap h" and bounded: "bounded (Suc m) h a" and shaped: "tree_shaped (Suc m) h a"
    and entry: "(p, HRef c) \<in> set (h a)" and reach: "b \<in> reach h c"
  shows "tree_of (Suc m) (h(b := d)) a =
     setitem (tree_of (Suc m) h a) p (PyDict (tree_of m (h(b := d)) c))"
proof -
  let ?h = "h(b := d)"
  from entry have child: "c \<in> set (children h a)" by (auto simp: children_def dest: refs_mem)
  with bounded have "bounded m h c" by (simp add: list_all_iff)
  with child have "a \<notin> reach h c" by (auto dest: bounded_acyclic)
  with reach have ab: "a \<noteq> b" by auto
  have "map (\<lambda>(k, v). (k, value_of (tree_of m ?h) v)) (h a) =
      AList.update p (value_of (tree_of m ?h) (HRef c))
        (map (\<lambda>(k, v). (k, value_of (tree_of m h) v)) (h a))"
  proof (rule map_update_one)
    from wf show "distinct (map fst (h a))" by (simp add: wf_heap_def keys_def)
    show "(p, HRef c) \<in> set (h a)" by (rule entry)
    show "value_of (tree_of m ?h) w = value_of (tree_of m h) w"
      if "(q, w) \<in> set (h a)" "q \<noteq> p" for q w
    proof (cases w)
      case (HRef c')
      from wf have "distinct (keys (h a))" by (simp add: wf_heap_def)
      with shaped entry that HRef have "reach h c \<inter> reach h c' = {}"
        by (intro separate_entries [of h "h a" p c q c']) (simp_all add: children_def)
      with reach have "b \<notin> reach h c'" by auto
      with HRef show ?thesis by (simp add: tree_of_upd_outside)
    qed simp_all
  qed
  with ab show ?thesis by (simp add: setitem_def)
qed

lemma store_in_place_tree:
  assumes wf: "wf_heap h"
  shows "bounded n h a \<Longrightarrow> tree_shaped n h a \<Longrightarrow> resolve h (HRef a) path = Return b \<Longrightarrow>
     store (tree_of n h a) path k (PyStr s) =
       Return (tree_of n (h(b := setitem (h b) k (HStr s))) a)"
proof (induction path arbitrary: n a)
  case Nil
  from Nil.prems(3) have b: "b = a" by simp
  from Nil.prems(1) obtain m where n: "n = Suc m" by (cases n) simp_all
  from Nil.prems(1) show ?case
    unfolding b n by (simp only: store.simps tree_of_setitem_here)
next
  case (Cons p ps)
  let ?h = "h(b := setitem (h b) k (HStr s))"
  from Cons.prems(3) obtain v where v: "map_of (h a) p = Some v" and r: "resolve h v ps = Return b"
    unfolding resolve_Cons by blast
  from r obtain c where c: "v = HRef c" by (auto dest: resolve_is_ref)
  from Cons.prems(1) obtain m where n: "n = Suc m" by (cases n) simp_all
  from v c have entry: "(p, HRef c) \<in> set (h a)" by (auto dest: map_of_SomeD)
  then have child: "c \<in> set (children h a)" by (auto simp: children_def dest: refs_mem)
  with Cons.prems(1,2) n have sub: "bounded m h c" "tree_shaped m h c"
    by (simp_all add: list_all_iff)
  from r c have reach: "b \<in> reach h c" by (simp add: resolve_reach)
  from r c have "resolve h (HRef c) ps = Return b" by simp
  with sub have IH: "store (tree_of m h c) ps k (PyStr s) = Return (tree_of m ?h c)"
    by (rule Cons.IH)
  from IH v c have "store (tree_of (Suc m) h a) (p # ps) k (PyStr s) =
      Return (setitem (tree_of (Suc m) h a) p (PyDict (tree_of m ?h c)))"
    by (simp add: get_tree_of del: tree_of.simps)
  then show ?case
    unfolding n tree_of_setitem_below [OF wf Cons.prems(1,2) [unfolded n] entry reach] .
qed

section \<open>Heaps that represent a record\<close>

lemma tree_shaped_same_children:
  assumes "\<And>b. children h' b = children h b"
  shows "tree_shaped n h' a = tree_shaped n h a"
proof -
  have "reach h' = reach h" by (rule ext) (rule reach_same_children [OF assms])
  then show ?thesis by (induction n arbitrary: a) (simp_all add: assms list_all_iff)
qed

lemma refs_setitem_leaf:
  "map_of d k = Some (HStr s0) \<Longrightarrow> refs (setitem d k (HStr s)) = refs d"
  by (induction d rule: refs.induct) (auto simp: setitem_def)

lemma children_leaf_upd:
  "map_of (h b) k = Some (HStr s0) \<Longrightarrow>
   children (h(b := setitem (h b) k (HStr s))) c = children h c"
  by (simp add: children_def refs_setitem_leaf)

lemma wf_heap_setitem:
  "wf_heap h \<Longrightarrow> map_of (h b) k = Some v0 \<Longrightarrow> wf_heap (h(b := setitem (h b) k v))"
  by (auto simp: wf_heap_def keys_setitem set_keys dest: map_of_Some_keys)

lemma resolve_leaf_upd:
  "map_of (h b) k = Some (HStr s0) \<Longrightarrow>
   resolve (h(b := setitem (h b) k (HStr s))) r path = resolve h r path"
proof (induction path arbitrary: r)
  case Nil
  show ?case by (cases r) simp_all
next
  case (Cons p ps)
  let ?h = "h(b := setitem (h b) k (HStr s))"
  show ?case
  proof (cases r)
    case (HRef a)
    have get: "getitem (?h a) p =
        (if a = b \<and> p = k then Return (HStr s) else getitem (h a) p)"
      by simp
    have "resolve ?h (HRef a) (p # ps) = and_then (getitem (?h a) p) (\<lambda>v. resolve h v ps)"
      unfolding resolve.simps Cons.IH [OF Cons.prems] ..
    also have "\<dots> = and_then (getitem (h a) p) (\<lambda>v. resolve h v ps)"
    proof (cases "a = b \<and> p = k")
      case True
      with Cons.prems have "getitem (h a) p = Return (HStr s0)" by (simp add: getitem_def)
      with True show ?thesis unfolding get by simp
    next
      case False
      then show ?thesis unfolding get by auto
    qed
    finally have "resolve ?h (HRef a) (p # ps) = resolve h (HRef a) (p # ps)"
      by (simp only: resolve.simps)
    then show ?thesis unfolding HRef .
  qed simp_all
qed

lemma resolve_append:
  "resolve h r (p @ q) = and_then (resolve h r p) (\<lambda>b. resolve h (HRef b) q)"
proof (induction p arbitrary: r)
  case Nil
  show ?case by (cases r; cases q) simp_all
next
  case (Cons k p)
  show ?case
  proof (cases r)
    case (HRef a)
    with Cons show ?thesis by (cases "getitem (h a) k") simp_all
  qed simp_all
qed

lemma value_of_PyStr: "value_of t w = PyStr s \<longleftrightarrow> w = HStr s"
  by (cases w) auto

lemma value_of_PyDict: "value_of t w = PyDict d \<longleftrightarrow> (\<exists>c. w = HRef c \<and> t c = d)"
  by (cases w) auto

lemma lookup_tree_of_Cons:
  "lookup (PyDict (tree_of (Suc n) h a)) (p # ps) =
     (case map_of (h a) p of None \<Rightarrow> None | Some w \<Rightarrow> lookup (value_of (tree_of n h) w) ps)"
  by (simp add: map_of_map split: option.splits)

lemma resolve_tree:
  "bounded n h a \<Longrightarrow> lookup (PyDict (tree_of n h a)) (path @ [k]) = Some (PyStr s0) \<Longrightarrow>
   \<exists>b. resolve h (HRef a) path = Return b \<and> map_of (h b) k = Some (HStr s0)"
proof (induction path arbitrary: n a)
  case Nil
  from Nil.prems(1) obtain m where n: "n = Suc m" by (cases n) simp_all
  with Nil.prems(2) show ?case
    by (auto simp: map_of_map value_of_PyStr split: option.splits)
next
  case (Cons p ps)
  from Cons.prems(1) obtain m where n: "n = Suc m" by (cases n) simp_all
  from Cons.prems(2) n obtain w where w: "map_of (h a) p = Some w"
    and look: "lookup (value_of (tree_of m h) w) (ps @ [k]) = Some (PyStr s0)"
    by (auto simp: lookup_tree_of_Cons simp del: tree_of.simps lookup.simps split: option.splits)
  from look obtain c where c: "w = HRef c" by (cases w) (simp_all add: lookup_leaf)
  with w have "c \<in> set (children h a)" by (simp add: children_def map_of_refs)
  with Cons.prems(1) n have "bounded m h c" by (simp add: list_all_iff)
  from Cons.IH [OF this] look c obtain b where
    "resolve h (HRef c) ps = Return b" "map_of (h b) k = Some (HStr s0)"
    by auto
  with w c show ?case by (auto simp: getitem_def)
qed

lemma represents_store:
  assumes rep: "represents n h a d"
    and leaf: "lookup (PyDict d) (path @ [k]) = Some (PyStr s0)"
  shows "\<exists>h'. store_in_place h (HRef a) path k (HStr s) = Return h' \<and>
     store d path k (PyStr s) = Return (tree_of n h' a) \<and>
     represents n h' a (tree_of n h' a) \<and>
     (\<forall>r q. resolve h' r q = resolve h r q)"
proof -
  from rep have wf: "wf_heap h" and bd: "bounded n h a" and ts: "tree_shaped n h a"
    and d: "tree_of n h a = d"
    by (simp_all add: represents_def)
  from leaf d have "lookup (PyDict (tree_of n h a)) (path @ [k]) = Some (PyStr s0)" by simp
  from resolve_tree [OF bd this] obtain b where b: "resolve h (HRef a) path = Return b"
    and old: "map_of (h b) k = Some (HStr s0)"
    by auto
  let ?h = "h(b := setitem (h b) k (HStr s))"
  have same: "children ?h c = children h c" for c
    using old by (rule children_leaf_upd)
  have "store_in_place h (HRef a) path k (HStr s) = Return ?h"
    by (simp add: store_in_place_def b)
  moreover from store_in_place_tree [OF wf bd ts b] d
  have "store d path k (PyStr s) = Return (tree_of n ?h a)" by simp
  moreover have "represents n ?h a (tree_of n ?h a)"
    unfolding represents_def bounded_same_children [OF same] tree_shaped_same_children [OF same]
    using wf bd ts old by (simp add: wf_heap_setitem)
  moreover have "resolve ?h r q = resolve h r q" for r q
    using old by (rule resolve_leaf_upd)
  ultimately show ?thesis by blast
qed

lemma represents_prune:
  assumes "represents n h a d"
  shows "\<exists>h'. remove_empty_in_place n h a = Some (Return h') \<and>
     represents n h' a (remove_empty_value d)"
proof -
  from assms have wf: "wf_heap h" and bd: "bounded n h a" and ts: "tree_shaped n h a"
    and d: "tree_of n h a = d"
    by (simp_all add: represents_def)
  let ?h = "prune_on (reach h a) h"
  have same: "children ?h c = children h c" for c by simp
  have "represents n ?h a (remove_empty_value d)"
    unfolding represents_def bounded_same_children [OF same] tree_shaped_same_children [OF same]
    using wf bd ts d by (simp add: wf_heap_prune_on tree_of_prune_on)
  with wf bd show ?thesis by (simp add: remove_empty_in_place_exact)
qed

section \<open>The depth of the tree and the depth of the heap\<close>

lemma set_refs: "set (refs d) = {b. \<exists>k. (k, HRef b) \<in> set d}"
  by (induction d rule: refs.induct) auto

lemma wf_dict_tree_of: "wf_heap h \<Longrightarrow> wf_dict (tree_of n h a)"
proof (induction n arbitrary: a)
  case 0
  show ?case by simp
next
  case (Suc n)
  have "wf_val (value_of (tree_of n h) v)" for v
    using Suc.IH [OF Suc.prems] by (cases v) simp_all
  moreover from Suc.prems have "distinct (keys (h a))" by (simp add: wf_heap_def)
  ultimately show ?case
    by (auto simp: wf_dict_iff keys_def)
qed

lemma depth_tree_of:
  "bounded m h a \<Longrightarrow> depth (tree_of m h a) \<le> n \<longleftrightarrow> bounded n h a"
proof (induction m arbitrary: a n)
  case 0
  then show ?case by simp
next
  case (Suc m)
  show ?case
  proof (cases n)
    case 0
    with depth_pos [of "tree_of (Suc m) h a"] show ?thesis by simp
  next
    case (Suc n')
    have IH: "depth (tree_of m h b) \<le> n' \<longleftrightarrow> bounded n' h b"
      if "(k, HRef b) \<in> set (h a)" for k b
      using that Suc.prems by (intro Suc.IH) (auto simp: list_all_iff children_def set_refs)
    have entry:
      "(case value_of (tree_of m h) v of PyDict sub \<Rightarrow> depth sub \<le> n' | _ \<Rightarrow> True) \<longleftrightarrow>
       (\<forall>b. v = HRef b \<longrightarrow> bounded n' h b)"
      if "(k, v) \<in> set (h a)" for k v
      using that IH by (cases v) auto
    have "depth (tree_of (Suc m) h a) \<le> Suc n' \<longleftrightarrow>
        (\<forall>(k, v) \<in> set (h a).
           case value_of (tree_of m h) v of PyDict sub \<Rightarrow> depth sub \<le> n' | _ \<Rightarrow> True)"
      by (force simp: depth_le_Suc)
    also have "\<dots> \<longleftrightarrow> (\<forall>(k, v) \<in> set (h a). \<forall>b. v = HRef b \<longrightarrow> bounded n' h b)"
      by (rule ball_cong [OF refl]) (use entry in auto)
    also have "\<dots> \<longleftrightarrow> bounded (Suc n') h a"
      by (auto simp: list_all_iff children_def set_refs)
    finally show ?thesis unfolding Suc .
  qed
qed

section \<open>More fuel than needed\<close>

lemma bounded_le: "bounded n h a \<Longrightarrow> n \<le> m \<Longrightarrow> bounded m h a"
  using bounded_mono [of n h a "m - n"] by simp

lemma tree_of_le: "bounded n h a \<Longrightarrow> n \<le> m \<Longrightarrow> tree_of m h a = tree_of n h a"
  using tree_of_fuel [of n h a "m - n"] by simp

lemma remove_empty_in_place_le:
  "wf_heap h \<Longrightarrow> bounded n h a \<Longrightarrow> n \<le> m \<Longrightarrow>
   remove_empty_in_place m h a = remove_empty_in_place n h a"
  by (simp add: remove_empty_in_place_exact bounded_le)

section \<open>Examples\<close>

lemma wf_example_heap: "wf_heap example_heap"
  by (simp add: wf_heap_def example_heap_def)

lemma bounded_example_heap: "bounded 3 example_heap 0"
  by (simp add: numeral_3_eq_3 children_def example_heap_def)

lemma children_example_heap:
  "children example_heap 0 = [1, 2]" "children example_heap 1 = [3]"
  "children example_heap 2 = []" "children example_heap 3 = []"
  by (simp_all add: children_def example_heap_def)

lemma reach_example_heap:
  "reach example_heap 2 = {2}" "reach example_heap 3 = {3}" "reach example_heap 1 = {1, 3}"
proof -
  show "reach example_heap 2 = {2}"
    by (subst reach_unfold) (simp add: children_def example_heap_def)
  show 3: "reach example_heap 3 = {3}"
    by (subst reach_unfold) (simp add: children_def example_heap_def)
  have "reach example_heap 1 = insert 1 (reach example_heap 3)"
    by (subst reach_unfold) (simp add: children_def example_heap_def)
  with 3 show "reach example_heap 1 = {1, 3}" by simp
qed

lemma tree_shaped_example_heap: "tree_shaped 3 example_heap 0"
proof -
  have "tree_shaped (Suc (Suc (Suc 0))) example_heap 0"
    by (simp only: tree_shaped.simps children_example_heap list.map list.pred_inject
        separate.simps reach_example_heap) simp
  then show ?thesis by (simp add: numeral_3_eq_3)
qed

lemma tree_of_example_heap:
  "tree_of 3 example_heap 0 =
     [(''directories'', PyDict [(''base'', PyStr []),
        (''subdirs'', PyDict [(''output'', PyStr ''videos''), (''data'', PyStr [])])]),
      (''style'', PyDict [(''tex_template'', PyStr []), (''font'', PyStr ''Consolas'')]),
      (''fps'', PyInt 30)]"
  by (simp add: numeral_3_eq_3 example_heap_def)

text \<open>
  C15. The routine on the heap, exactly: on a heap whose dictionaries hold each key once,
  a call with recursion depth \<open>n\<close> at the dictionary at address \<open>a\<close> returns if and
  only if no chain of nested dictionaries below \<open>a\<close> is longer than \<open>n\<close>; it then never
  raises, and it leaves the heap in which every dictionary reachable from \<open>a\<close> has lost
  its entries with the empty string, and every other dictionary is untouched.
\<close>
theorem remove_empty_in_place_correct:
  assumes "wf_heap h"
  shows "remove_empty_in_place n h a =
     (if bounded n h a then Some (Return (prune_on (reach h a) h)) else None)"
  using assms by (rule remove_empty_in_place_exact)

theorem remove_empty_in_place_correct_witness:
  "wf_heap example_heap \<and>
   (\<exists>h'. remove_empty_in_place 3 example_heap 0 = Some (Return h') \<and>
      h' 1 = [(''subdirs'', HRef 3)] \<and> h' 3 = [(''output'', HStr ''videos'')]) \<and>
   remove_empty_in_place 2 example_heap 0 = None"
proof -
  have "1 \<in> reach example_heap 0"
    by (rule reach_child [OF reach_self]) (simp add: children_def example_heap_def)
  moreover from this have "3 \<in> reach example_heap 0"
    by (rule reach_child) (simp add: children_def example_heap_def)
  moreover have "\<not> bounded 2 example_heap 0"
    by (simp add: numeral_2_eq_2 children_def example_heap_def)
  ultimately show ?thesis
    using remove_empty_in_place_correct [OF wf_example_heap, of 3 0]
      remove_empty_in_place_correct [OF wf_example_heap, of 2 0]
    by (simp add: wf_example_heap bounded_example_heap prune_on_def) (simp add: example_heap_def)
qed

text \<open>
  C5. The routine on the heap refines the routine on values: when the call at address
  \<open>a\<close> returns, the tree that the heap represents below \<open>a\<close> afterwards is the
  pruning of the tree it represented before, and objects not reachable from \<open>a\<close> are
  as they were.
\<close>
theorem remove_empty_in_place_refines:
  assumes "wf_heap h" and "bounded n h a"
  shows "\<exists>h'. remove_empty_in_place n h a = Some (Return h') \<and>
     tree_of n h' a = remove_empty_value (tree_of n h a) \<and>
     (\<forall>b. b \<notin> reach h a \<longrightarrow> h' b = h b)"
  using assms
  by (simp add: remove_empty_in_place_exact tree_of_prune_on prune_on_outside)

theorem remove_empty_in_place_refines_witness:
  "wf_heap example_heap \<and> bounded 3 example_heap 0 \<and>
   (\<exists>h'. remove_empty_in_place 3 example_heap 0 = Some (Return h') \<and>
      tree_of 3 h' 0 =
        [(''directories'', PyDict [(''subdirs'', PyDict [(''output'', PyStr ''videos'')])]),
         (''style'', PyDict [(''font'', PyStr ''Consolas'')]),
         (''fps'', PyInt 30)])"
  using remove_empty_in_place_refines [OF wf_example_heap bounded_example_heap]
  by (auto simp: wf_example_heap bounded_example_heap tree_of_example_heap)

text \<open>
  C6. The two readings of the source agree for every recursion depth: on a heap whose
  nesting below \<open>a\<close> is finite, running the routine in place at \<open>a\<close> and reading
  the tree off the heap afterwards gives what the loop on values gives on the tree read
  off before. Either both exceed the recursion depth or both return, and neither
  raises. The call in place exceeds the recursion depth exactly when the tree is deeper
  than the depth allowed.
\<close>
theorem remove_empty_in_place_agrees_with_loop:
  assumes "wf_heap h" and "bounded m h a"
  shows "map_option (map_sum id (\<lambda>h'. tree_of m h' a)) (remove_empty_in_place n h a) =
       remove_empty_loop n (tree_of m h a) \<and>
     (remove_empty_in_place n h a = None \<longleftrightarrow> n < depth (tree_of m h a))"
proof -
  from assms(2) have "bounded n h a \<longleftrightarrow> \<not> n < depth (tree_of m h a)"
    by (simp add: depth_tree_of not_less)
  with assms show ?thesis
    by (simp add: remove_empty_in_place_exact remove_empty_loop_exact wf_dict_tree_of
        tree_of_prune_on not_less)
qed

theorem remove_empty_in_place_agrees_with_loop_witness:
  "wf_heap example_heap \<and> bounded 3 example_heap 0 \<and>
   remove_empty_in_place 2 example_heap 0 = None \<and>
   remove_empty_loop 2 (tree_of 3 example_heap 0) = None \<and>
   remove_empty_loop 3 (tree_of 3 example_heap 0) =
     Some (Return
       [(''directories'', PyDict [(''subdirs'', PyDict [(''output'', PyStr ''videos'')])]),
        (''style'', PyDict [(''font'', PyStr ''Consolas'')]),
        (''fps'', PyInt 30)])"
proof -
  note agree = remove_empty_in_place_agrees_with_loop [OF wf_example_heap bounded_example_heap]
  from agree [of 2] have none: "remove_empty_in_place 2 example_heap 0 = None"
    by (simp add: tree_of_example_heap)
  from agree [of 2] agree [of 3] none show ?thesis
    by (simp add: wf_example_heap bounded_example_heap remove_empty_in_place_exact
        tree_of_prune_on tree_of_example_heap)
qed

text \<open>
  C24. A dictionary that contains itself, directly or through nested dictionaries, is
  never pruned: the recursion does not end, so the call returns for no recursion depth.
\<close>
theorem remove_empty_in_place_cyclic:
  assumes "wf_heap h" and "c \<in> reach h a" and "a \<in> set (children h c)"
  shows "remove_empty_in_place n h a = None"
  using assms bounded_acyclic [of n h a c]
  by (auto simp: remove_empty_in_place_exact)

theorem remove_empty_in_place_cyclic_witness:
  "wf_heap ((\<lambda>a. [])(0 := [(''self'', HRef 0)])) \<and>
   remove_empty_in_place 5 ((\<lambda>a. [])(0 := [(''self'', HRef 0)])) 0 = None"
proof -
  let ?h = "(\<lambda>a. [])(0 := [(''self'', HRef 0)]) :: heap"
  have wf: "wf_heap ?h" by (simp add: wf_heap_def)
  from remove_empty_in_place_cyclic [where h = ?h and a = 0 and c = 0 and n = 5] wf
  show ?thesis by (simp add: children_def reach_self)
qed

text \<open>
  C16. An assignment behind subscripts on the heap refines the assignment on values: on
  a heap that represents a tree below \<open>a\<close>, assigning a string where the tree holds a
  string returns, the heap afterwards represents the tree that \<open>store\<close> computes, and it
  is again a heap that represents a tree.
\<close>
theorem store_in_place_refines:
  assumes "represents n h a d" and "lookup (PyDict d) (path @ [k]) = Some (PyStr s0)"
  shows "\<exists>h'. store_in_place h (HRef a) path k (HStr s) = Return h' \<and>
     store d path k (PyStr s) = Return (tree_of n h' a) \<and>
     represents n h' a (tree_of n h' a)"
  using represents_store [OF assms, of s] by blast

theorem store_in_place_refines_witness:
  "represents 3 example_heap 0 (tree_of 3 example_heap 0) \<and>
   lookup (PyDict (tree_of 3 example_heap 0)) ([''directories'', ''subdirs''] @ [''output'']) =
     Some (PyStr ''videos'') \<and>
   (\<exists>h'. store_in_place example_heap (HRef 0) [''directories'', ''subdirs''] ''output''
            (HStr ''clips'') = Return h' \<and>
      lookup (PyDict (tree_of 3 h' 0)) [''directories'', ''subdirs'', ''output''] =
        Some (PyStr ''clips''))"
proof -
  have rep: "represents 3 example_heap 0 (tree_of 3 example_heap 0)"
    by (simp add: represents_def wf_example_heap bounded_example_heap tree_shaped_example_heap)
  have leaf: "lookup (PyDict (tree_of 3 example_heap 0))
      ([''directories'', ''subdirs''] @ [''output'']) = Some (PyStr ''videos'')"
    by (simp add: tree_of_example_heap)
  from store_in_place_refines [OF rep leaf, of "''clips''"] obtain h' where
    "store_in_place example_heap (HRef 0) [''directories'', ''subdirs''] ''output''
       (HStr ''clips'') = Return h'"
    "store (tree_of 3 example_heap 0) [''directories'', ''subdirs''] ''output''
       (PyStr ''clips'') = Return (tree_of 3 h' 0)"
    by blast
  with lookup_store_same [of "tree_of 3 example_heap 0" "[''directories'', ''subdirs'']"
      "''output''" "PyStr ''clips''" "tree_of 3 h' 0"] rep leaf
  show ?thesis by auto
qed

text \<open>
  The hypothesis that the heap is a tree cannot be dropped: when one dictionary object
  is held under two keys, an assignment through one key changes what is read through
  the other, which the assignment on values does not do.
\<close>

lemma store_in_place_shared:
  "store_in_place shared_heap (HRef 0) [''a''] ''x'' (HStr ''new'') =
     Return (shared_heap(1 := [(''x'', HStr ''new'')])) \<and>
   tree_of 2 (shared_heap(1 := [(''x'', HStr ''new'')])) 0 =
     [(''a'', PyDict [(''x'', PyStr ''new'')]), (''b'', PyDict [(''x'', PyStr ''new'')])] \<and>
   store (tree_of 2 shared_heap 0) [''a''] ''x'' (PyStr ''new'') =
     Return [(''a'', PyDict [(''x'', PyStr ''new'')]), (''b'', PyDict [(''x'', PyStr ''old'')])]"
  by (simp add: store_in_place_def shared_heap_def numeral_2_eq_2 getitem_def setitem_def
      fun_upd_twist)

end
