(* ===== verification/Wizard_Heap.thy ===== *)
theory Wizard_Heap
  imports Wizard_Inv Heap
begin

text \<open>
  The configuration guide on the heap: \<^verbatim>\<open>init_customization\<close> of
  \<^verbatim>\<open>src/manimlib/utils/init_config.py\<close> with its dictionaries as objects and its
  local variables \<^verbatim>\<open>configuration\<close>, \<^verbatim>\<open>dir_config\<close> and \<^verbatim>\<open>style_config\<close> holding
  references. The dictionary literal allocates five objects (\<open>initial_heap\<close>);
  \<^verbatim>\<open>dir_config = configuration["directories"]\<close> binds a variable to the object a key
  holds (\<open>bind_var\<close>); an assignment such as
  \<^verbatim>\<open>dir_config["subdirs"]["output"] = ...\<close> reads the variable, follows the subscripts
  and changes the object reached (\<open>h_assign\<close>); \<^verbatim>\<open>remove_empty_value(configuration)\<close>
  is the routine in place of theory \<open>Heap\<close>, run with the recursion limit of the
  interpreter as fuel; \<^verbatim>\<open>yaml.dump\<close> writes the tree the heap represents below the
  variable. \<open>h_answer\<close>, \<open>h_write_config\<close>, \<open>h_cancel\<close>, \<open>h_step\<close> and \<open>h_run\<close> compose
  these statements as the machine of theory \<open>Wizard\<close> composes its own, and
  \<open>init_customization_in_place\<close> is the run from the start.

  The relation \<open>sim\<close> ties a state of this machine to a state of the machine on
  values: same program point, scope, console and files, the heap represents the record
  below address 0 as a tree, and the aliases in scope point to the objects that the
  record holds under \<^verbatim>\<open>directories\<close> and \<^verbatim>\<open>style\<close>. Every step of one machine is
  matched by the step of the other, so the guide on values is an exact abstraction of
  the guide on objects: no exception is raised on the heap either, and the same file is
  written with the same content.
\<close>

section \<open>The record as objects\<close>

definition initial_heap :: heap where
  "initial_heap =
     (\<lambda>a. [])
       (0 := [(''directories'', HRef 1),
              (''universal_import_line'', HStr ''from manimlib import *''),
              (''style'', HRef 3),
              (''window_position'', HStr ''UR''),
              (''window_monitor'', HInt 0),
              (''full_screen'', HBool False),
              (''break_into_partial_movies'', HBool False),
              (''camera_resolutions'', HRef 4),
              (''fps'', HInt 30)],
        1 := [(''mirror_module_path'', HBool False),
              (''base'', HStr ''''),
              (''subdirs'', HRef 2)],
        2 := [(''output'', HStr ''videos''),
              (''raster_images'', HStr ''raster_images''),
              (''vector_images'', HStr ''vector_images''),
              (''sounds'', HStr ''sounds''),
              (''data'', HStr ''data''),
              (''downloads'', HStr ''downloads'')],
        3 := [(''tex_template'', HStr ''''),
              (''font'', HStr ''Consolas''),
              (''background_color'', HStr '''')],
        4 := [(''low'', HStr ''854x480''),
              (''medium'', HStr ''1280x720''),
              (''high'', HStr ''1920x1080''),
              (''4k'', HStr ''3840x2160''),
              (''default_resolution'', HStr '''')])"

definition record_depth :: nat where
  "record_depth = 3"

definition recursion_limit :: nat where
  "recursion_limit = 1000"

section \<open>State\<close>

datatype variable = Configuration | Dir_Config | Style_Config

record hstate =
  h_pc :: pc
  h_heap :: heap
  h_vars :: "variable \<rightharpoonup> hval"
  h_scope :: "string option"
  h_console :: "message list"
  h_files :: "string \<rightharpoonup> pyval"

definition h_start :: "(string \<rightharpoonup> dict) \<Rightarrow> hstate" where
  "h_start fs =
     \<lparr>h_pc = Asking Scope, h_heap = initial_heap, h_vars = [Configuration \<mapsto> HRef 0],
      h_scope = None, h_console = [Guide_Rule], h_files = map_option PyDict \<circ> fs\<rparr>"

section \<open>Statements\<close>

fun h_exec :: "(hstate \<Rightarrow> hstate) list \<Rightarrow> hstate \<Rightarrow> hstate" where
  "h_exec [] s = s"
| "h_exec (f # fs) s = (if crashed (h_pc s) then s else h_exec fs (f s))"

definition h_print :: "message \<Rightarrow> hstate \<Rightarrow> hstate" where
  "h_print m s = s\<lparr>h_console := h_console s @ [m]\<rparr>"

definition h_goto :: "pc \<Rightarrow> hstate \<Rightarrow> hstate" where
  "h_goto p s = s\<lparr>h_pc := p\<rparr>"

definition read_var :: "variable \<Rightarrow> hstate \<Rightarrow> hval result" where
  "read_var x s = (case h_vars s x of None \<Rightarrow> Raise UnboundLocalError | Some v \<Rightarrow> Return v)"

definition bind_var :: "variable \<Rightarrow> variable \<Rightarrow> string \<Rightarrow> hstate \<Rightarrow> hstate" where
  "bind_var x y k s =
     (case and_then (read_var y s) (\<lambda>r.
             and_then (resolve (h_heap s) r []) (\<lambda>a. getitem (h_heap s a) k)) of
        Inl e \<Rightarrow> s\<lparr>h_pc := Crashed e\<rparr>
      | Inr v \<Rightarrow> s\<lparr>h_vars := (h_vars s)(x \<mapsto> v)\<rparr>)"

definition h_assign :: "variable \<Rightarrow> string list \<Rightarrow> string \<Rightarrow> string \<Rightarrow> hstate \<Rightarrow> hstate" where
  "h_assign x path k v s =
     (case and_then (read_var x s) (\<lambda>r. store_in_place (h_heap s) r path k (HStr v)) of
        Inl e \<Rightarrow> s\<lparr>h_pc := Crashed e\<rparr>
      | Inr h' \<Rightarrow> s\<lparr>h_heap := h'\<rparr>)"

section \<open>The prompts of the guide\<close>

fun h_answer :: "question \<Rightarrow> string \<Rightarrow> hstate \<Rightarrow> hstate" where
  "h_answer Scope v =
     h_exec [(\<lambda>s. s\<lparr>h_scope := Some v\<rparr>), h_print (Heading ''Directories:''),
             bind_var Dir_Config Configuration ''directories'', h_goto (Asking Base)]"
| "h_answer Base v =
     h_exec [h_assign Dir_Config [] ''base'' v, h_goto (Asking Output)]"
| "h_answer Output v =
     h_exec [h_assign Dir_Config [''subdirs''] ''output'' v, h_goto (Asking RasterImages)]"
| "h_answer RasterImages v =
     h_exec [h_assign Dir_Config [''subdirs''] ''raster_images'' v, h_goto (Asking VectorImages)]"
| "h_answer VectorImages v =
     h_exec [h_assign Dir_Config [''subdirs''] ''vector_images'' v, h_goto (Asking Sounds)]"
| "h_answer Sounds v =
     h_exec [h_assign Dir_Config [''subdirs''] ''sounds'' v, h_goto (Asking Downloads)]"
| "h_answer Downloads v =
     h_exec [h_assign Dir_Config [''subdirs''] ''downloads'' v,
             h_print (Heading ''Styles:''), bind_var Style_Config Configuration ''style'',
             h_goto (Asking TexTemplate)]"
| "h_answer TexTemplate v =
     h_exec [h_assign Style_Config [] ''tex_template'' v, h_goto (Asking BackgroundColor)]"
| "h_answer BackgroundColor v =
     h_exec [h_assign Style_Config [] ''background_color'' v,
             h_print (Heading ''Camera qualities:''), h_print Qualities_Table,
             h_goto (Asking DefaultResolution)]"
| "h_answer DefaultResolution v =
     h_exec [h_assign Configuration [''camera_resolutions''] ''default_resolution'' v,
             h_goto Confirming]"

section \<open>Writing the file\<close>

definition h_remove_empty_value :: "variable \<Rightarrow> hstate \<Rightarrow> hstate" where
  "h_remove_empty_value x s =
     (case read_var x s of
        Inl e \<Rightarrow> s\<lparr>h_pc := Crashed e\<rparr>
      | Inr (HRef a) \<Rightarrow>
          (case remove_empty_in_place recursion_limit (h_heap s) a of
             None \<Rightarrow> s\<lparr>h_pc := Crashed RecursionError\<rparr>
           | Some (Inl e) \<Rightarrow> s\<lparr>h_pc := Crashed e\<rparr>
           | Some (Inr h') \<Rightarrow> s\<lparr>h_heap := h'\<rparr>)
      | Inr _ \<Rightarrow> s\<lparr>h_pc := Crashed AttributeError\<rparr>)"

definition h_yaml_dump :: "string \<Rightarrow> variable \<Rightarrow> hstate \<Rightarrow> hstate" where
  "h_yaml_dump fname x s =
     (case read_var x s of
        Inl e \<Rightarrow> s\<lparr>h_pc := Crashed e\<rparr>
      | Inr (HRef a) \<Rightarrow>
          if bounded recursion_limit (h_heap s) a
          then s\<lparr>h_files := (h_files s)(fname \<mapsto> PyDict (tree_of recursion_limit (h_heap s) a))\<rparr>
          else s\<lparr>h_pc := Crashed RecursionError\<rparr>
      | Inr v \<Rightarrow> s\<lparr>h_files := (h_files s)(fname \<mapsto> value_of (\<lambda>a. []) v)\<rparr>)"

definition h_write_config :: "env \<Rightarrow> hstate \<Rightarrow> hstate" where
  "h_write_config e s =
     (let (fname, prune) =
            decide e (h_scope s) (path_exists (h_files s) (global_file_name e))
      in h_exec [(\<lambda>s. if prune then h_remove_empty_value Configuration s else s),
                 h_yaml_dump fname Configuration,
                 h_print (Success (case h_scope s of None \<Rightarrow> [] | Some sc \<Rightarrow> sc)),
                 h_print (Modify_Hint fname),
                 h_goto Written] s)"

definition h_cancel :: "hstate \<Rightarrow> hstate" where
  "h_cancel = h_exec [h_print Exit_Guide, h_goto Cancelled]"

section \<open>The machine\<close>

fun h_step :: "env \<Rightarrow> hstate \<Rightarrow> event \<Rightarrow> hstate option" where
  "h_step e s KeyboardInterrupt = (if terminal (h_pc s) then None else Some (h_cancel s))"
| "h_step e s (Reply v) = (case h_pc s of Asking q \<Rightarrow> Some (h_answer q v s) | _ \<Rightarrow> None)"
| "h_step e s (Confirm b) =
     (case h_pc s of
        Confirming \<Rightarrow> Some (if b then h_write_config e s else h_cancel s)
      | _ \<Rightarrow> None)"

fun h_run :: "env \<Rightarrow> hstate \<Rightarrow> event list \<Rightarrow> hstate option" where
  "h_run e s [] = Some s"
| "h_run e s (ev # evs) = (case h_step e s ev of None \<Rightarrow> None | Some s' \<Rightarrow> h_run e s' evs)"

definition init_customization_in_place ::
  "env \<Rightarrow> (string \<rightharpoonup> dict) \<Rightarrow> event list \<Rightarrow> hstate option" where
  "init_customization_in_place e fs evs = h_run e (h_start fs) evs"

section \<open>The simulation relation\<close>

definition alias_of :: "pc \<Rightarrow> (variable \<times> string) list" where
  "alias_of p =
     (if p \<in> Asking ` {Base, Output, RasterImages, VectorImages, Sounds, Downloads}
      then [(Dir_Config, ''directories'')]
      else if p \<in> Asking ` {TexTemplate, BackgroundColor} then [(Style_Config, ''style'')]
      else [])"

definition sim :: "hstate \<Rightarrow> wstate \<Rightarrow> bool" where
  "sim hs s \<longleftrightarrow>
     h_pc hs = pc s \<and> h_scope hs = scope s \<and> h_console hs = console s \<and>
     h_files hs = map_option PyDict \<circ> files s \<and>
     h_vars hs Configuration = Some (HRef 0) \<and>
     represents record_depth (h_heap hs) 0 (configuration s) \<and>
     list_all (\<lambda>(x, k). \<exists>b. h_vars hs x = Some (HRef b) \<and>
                 resolve (h_heap hs) (HRef 0) [k] = Return b) (alias_of (pc s))"

definition answered_in_place :: "hstate \<Rightarrow> wstate \<Rightarrow> question \<Rightarrow> string \<Rightarrow> bool" where
  "answered_in_place hs s q v \<longleftrightarrow>
     (\<exists>h' vars'.
        h_answer q v hs =
          hs\<lparr>h_pc := next_pc q, h_heap := h', h_vars := vars',
             h_scope := (if q = Scope then Some v else h_scope hs),
             h_console := h_console hs @ prints q\<rparr> \<and>
        (case target q of
           None \<Rightarrow> tree_of record_depth h' 0 = configuration s
         | Some (path, k) \<Rightarrow>
             store (configuration s) path k (PyStr v) = Return (tree_of record_depth h' 0)) \<and>
        represents record_depth h' 0 (tree_of record_depth h' 0) \<and>
        vars' Configuration = Some (HRef 0) \<and>
        list_all (\<lambda>(x, k). \<exists>b. vars' x = Some (HRef b) \<and> resolve h' (HRef 0) [k] = Return b)
          (alias_of (next_pc q)))"

section \<open>The initial heap\<close>

lemma reach_initial_heap:
  "reach initial_heap 2 = {2}" "reach initial_heap 3 = {3}" "reach initial_heap 4 = {4}"
  "reach initial_heap 1 = {1, 2}"
proof -
  show 2: "reach initial_heap 2 = {2}"
    by (subst reach_unfold) (simp add: children_def initial_heap_def)
  show "reach initial_heap 3 = {3}"
    by (subst reach_unfold) (simp add: children_def initial_heap_def)
  show "reach initial_heap 4 = {4}"
    by (subst reach_unfold) (simp add: children_def initial_heap_def)
  have "reach initial_heap 1 = insert 1 (reach initial_heap 2)"
    by (subst reach_unfold) (simp add: children_def initial_heap_def)
  with 2 show "reach initial_heap 1 = {1, 2}" by simp
qed

lemma children_initial_heap:
  "children initial_heap 0 = [1, 3, 4]" "children initial_heap 1 = [2]"
  "children initial_heap 2 = []" "children initial_heap 3 = []" "children initial_heap 4 = []"
  by (simp_all add: children_def initial_heap_def)

lemma represents_initial: "represents record_depth initial_heap 0 initial_configuration"
proof -
  have "wf_heap initial_heap" by (simp add: wf_heap_def initial_heap_def)
  moreover have "bounded (Suc (Suc (Suc 0))) initial_heap 0"
    by (simp only: bounded.simps children_initial_heap list.pred_inject)
  moreover have "tree_shaped (Suc (Suc (Suc 0))) initial_heap 0"
    by (simp only: tree_shaped.simps children_initial_heap list.map list.pred_inject
        separate.simps reach_initial_heap) simp
  moreover have "tree_of 3 initial_heap 0 = initial_configuration"
    by (simp add: numeral_3_eq_3 initial_heap_def initial_configuration_def)
  ultimately show ?thesis by (simp add: represents_def record_depth_def numeral_3_eq_3)
qed

section \<open>Statements on a state that has not crashed\<close>

lemmas h_stmt_defs = h_print_def h_goto_def

lemma h_exec_Cons_running [simp]:
  "\<not> crashed (h_pc s) \<Longrightarrow> h_exec (f # fs) s = h_exec fs (f s)"
  by simp

lemma h_exec_crashed [simp]: "crashed (h_pc s) \<Longrightarrow> h_exec fs s = s"
  by (cases fs) simp_all

declare h_exec.simps(2) [simp del]

lemma h_exec_prints:
  "\<not> crashed (h_pc s) \<Longrightarrow>
   h_exec (map h_print ms @ fs) s = h_exec fs (s\<lparr>h_console := h_console s @ ms\<rparr>)"
  by (induction ms arbitrary: s) (simp_all add: h_print_def)

lemma leaf_of_schema:
  assumes "shape_of (PyDict c) = schema" and "shape_lookup schema p = Some (Leaf TStr)"
  shows "\<exists>s0. lookup (PyDict c) p = Some (PyStr s0)"
  using schema_lookup [OF assms] by (auto simp: shape_of_Leaf_TStr)

lemma h_assign_sim:
  assumes rep: "represents record_depth (h_heap hs) 0 c"
    and shape: "shape_of (PyDict c) = schema"
    and target: "target q = Some (pre @ rest, k)"
    and var: "h_vars hs x = Some (HRef b)"
    and ptr: "resolve (h_heap hs) (HRef 0) pre = Return b"
  shows "\<exists>h'. h_assign x rest k v hs = hs\<lparr>h_heap := h'\<rparr> \<and>
     store c (pre @ rest) k (PyStr v) = Return (tree_of record_depth h' 0) \<and>
     represents record_depth h' 0 (tree_of record_depth h' 0) \<and>
     (\<forall>r p. resolve h' r p = resolve (h_heap hs) r p)"
proof -
  from leaf_of_schema [OF shape target_schema [OF target]] obtain s0 where
    "lookup (PyDict c) ((pre @ rest) @ [k]) = Some (PyStr s0)" by blast
  from represents_store [OF rep this, of v] obtain h' where
    h': "store_in_place (h_heap hs) (HRef 0) (pre @ rest) k (HStr v) = Return h'"
    and rest: "store c (pre @ rest) k (PyStr v) = Return (tree_of record_depth h' 0)"
      "represents record_depth h' 0 (tree_of record_depth h' 0)"
      "\<forall>r p. resolve h' r p = resolve (h_heap hs) r p"
    by blast
  from h' ptr have "store_in_place (h_heap hs) (HRef b) rest k (HStr v) = Return h'"
    by (simp add: store_in_place_def resolve_append)
  with var have "h_assign x rest k v hs = hs\<lparr>h_heap := h'\<rparr>"
    by (simp add: h_assign_def read_var_def)
  with rest show ?thesis by blast
qed

lemma bind_var_sim:
  assumes rep: "represents record_depth (h_heap hs) 0 c"
    and shape: "shape_of (PyDict c) = schema"
    and leaf: "shape_lookup schema [k, k'] = Some (Leaf TStr)"
    and var: "h_vars hs Configuration = Some (HRef 0)"
  shows "\<exists>b. bind_var x Configuration k hs = hs\<lparr>h_vars := (h_vars hs)(x \<mapsto> HRef b)\<rparr> \<and>
     resolve (h_heap hs) (HRef 0) [k] = Return b"
proof -
  from leaf_of_schema [OF shape leaf] obtain s0 where
    "lookup (PyDict c) ([k] @ [k']) = Some (PyStr s0)" by auto
  moreover from rep have "bounded record_depth (h_heap hs) 0" "tree_of record_depth (h_heap hs) 0 = c"
    by (simp_all add: represents_def)
  ultimately obtain b where b: "resolve (h_heap hs) (HRef 0) [k] = Return b"
    using resolve_tree [of record_depth "h_heap hs" 0 "[k]" k' s0] by auto
  then obtain w where w: "getitem (h_heap hs 0) k = Return w" "resolve (h_heap hs) w [] = Return b"
    by (auto simp: and_then_eq_Return)
  from w(2) have "w = HRef b" by (cases w) simp_all
  with w(1) var have "bind_var x Configuration k hs = hs\<lparr>h_vars := (h_vars hs)(x \<mapsto> HRef b)\<rparr>"
    by (simp add: bind_var_def read_var_def)
  with b show ?thesis by blast
qed

section \<open>The recursion limit\<close>

lemma record_depth_le: "record_depth \<le> recursion_limit"
  by (simp add: record_depth_def recursion_limit_def)

section \<open>Every step is simulated\<close>

lemma sim_alias:
  assumes "sim hs s" and "(x, k) \<in> set (alias_of (pc s))"
  shows "\<exists>b. h_vars hs x = Some (HRef b) \<and> resolve (h_heap hs) (HRef 0) [k] = Return b"
  using assms by (auto simp: sim_def list_all_iff)

lemma h_assign_closed:
  assumes sim: "sim hs s" and shape: "shape_of (PyDict (configuration s)) = schema"
    and pc: "pc s = Asking q"
    and target: "target q = Some (pre @ rest, k)"
    and var: "h_vars hs x = Some (HRef b)"
    and ptr: "resolve (h_heap hs) (HRef 0) pre = Return b"
  shows "\<exists>h'. h_assign x rest k v hs = hs\<lparr>h_heap := h'\<rparr> \<and>
     store (configuration s) (pre @ rest) k (PyStr v) = Return (tree_of record_depth h' 0) \<and>
     represents record_depth h' 0 (tree_of record_depth h' 0) \<and>
     (\<forall>p. p \<noteq> Asking Scope \<longrightarrow> set (alias_of p) \<subseteq> set (alias_of (Asking q)) \<longrightarrow>
        list_all (\<lambda>(x, k). \<exists>b. h_vars hs x = Some (HRef b) \<and>
                    resolve h' (HRef 0) [k] = Return b) (alias_of p))"
proof -
  from sim have rep: "represents record_depth (h_heap hs) 0 (configuration s)"
    by (simp add: sim_def)
  from h_assign_sim [OF rep shape target var ptr, of v] obtain h' where
    h': "h_assign x rest k v hs = hs\<lparr>h_heap := h'\<rparr>"
      "store (configuration s) (pre @ rest) k (PyStr v) = Return (tree_of record_depth h' 0)"
      "represents record_depth h' 0 (tree_of record_depth h' 0)"
    and same: "\<And>r p. resolve h' r p = resolve (h_heap hs) r p"
    by blast
  have "list_all (\<lambda>(x, k). \<exists>b. h_vars hs x = Some (HRef b) \<and>
      resolve h' (HRef 0) [k] = Return b) (alias_of p)"
    if "set (alias_of p) \<subseteq> set (alias_of (Asking q))" for p
    unfolding same list_all_iff using that sim_alias [OF sim] pc by auto
  with h' show ?thesis by blast
qed

lemma sim_dir:
  assumes "sim hs s" and "pc s = Asking q"
    and "q \<in> {Base, Output, RasterImages, VectorImages, Sounds, Downloads}"
  shows "\<exists>b. h_vars hs Dir_Config = Some (HRef b) \<and>
     resolve (h_heap hs) (HRef 0) [''directories''] = Return b"
  using assms(2,3) by (intro sim_alias [OF assms(1)]) (auto simp: alias_of_def)

lemma sim_style:
  assumes "sim hs s" and "pc s = Asking q" and "q \<in> {TexTemplate, BackgroundColor}"
  shows "\<exists>b. h_vars hs Style_Config = Some (HRef b) \<and>
     resolve (h_heap hs) (HRef 0) [''style''] = Return b"
  using assms(2,3) by (intro sim_alias [OF assms(1)]) (auto simp: alias_of_def)

lemma h_answer_assign:
  assumes sim: "sim hs s" and shape: "shape_of (PyDict (configuration s)) = schema"
    and pc: "pc s = Asking q"
    and target: "target q = Some (pre @ rest, k)"
    and var: "h_vars hs x = Some (HRef b)" "resolve (h_heap hs) (HRef 0) pre = Return b"
    and eq: "h_answer q v hs =
       h_exec (h_assign x rest k v # map h_print (prints q) @ [h_goto (next_pc q)]) hs"
    and nxt: "q \<noteq> Scope" "next_pc q \<noteq> Asking Scope"
      "set (alias_of (next_pc q)) \<subseteq> set (alias_of (Asking q))"
  shows "answered_in_place hs s q v"
proof -
  from sim pc have hpc: "h_pc hs = Asking q" and root: "h_vars hs Configuration = Some (HRef 0)"
    by (simp_all add: sim_def)
  from h_assign_closed [OF sim shape pc target var, of v] nxt(2,3) obtain h' where
    "h_assign x rest k v hs = hs\<lparr>h_heap := h'\<rparr>"
    "store (configuration s) (pre @ rest) k (PyStr v) = Return (tree_of record_depth h' 0)"
    "represents record_depth h' 0 (tree_of record_depth h' 0)"
    "list_all (\<lambda>(x, k). \<exists>b. h_vars hs x = Some (HRef b) \<and>
        resolve h' (HRef 0) [k] = Return b) (alias_of (next_pc q))"
    by blast
  with target eq nxt(1) hpc root show ?thesis
    unfolding answered_in_place_def
    by (intro exI [of _ h'] exI [of _ "h_vars hs"])
      (simp add: h_exec_prints h_goto_def del: store.simps resolve.simps)
qed

lemma h_answer_Scope:
  assumes sim: "sim hs s" and shape: "shape_of (PyDict (configuration s)) = schema"
    and pc: "pc s = Asking Scope"
  shows "answered_in_place hs s Scope v"
proof -
  from sim pc have hpc: "h_pc hs = Asking Scope"
    and root: "h_vars hs Configuration = Some (HRef 0)"
    and rep: "represents record_depth (h_heap hs) 0 (configuration s)"
    by (simp_all add: sim_def)
  let ?hs = "hs\<lparr>h_scope := Some v, h_console := h_console hs @ [Heading ''Directories:'']\<rparr>"
  from bind_var_sim [OF _ shape, of ?hs "''directories''" "''base''" Dir_Config] rep root
  obtain b where
    "bind_var Dir_Config Configuration ''directories'' ?hs =
       ?hs\<lparr>h_vars := (h_vars hs)(Dir_Config \<mapsto> HRef b)\<rparr>"
    "resolve (h_heap hs) (HRef 0) [''directories''] = Return b"
    by (auto simp: schema_eq)
  with hpc rep root show ?thesis
    unfolding answered_in_place_def
    by (intro exI [of _ "h_heap hs"] exI [of _ "(h_vars hs)(Dir_Config \<mapsto> HRef b)"])
      (simp add: h_stmt_defs alias_of_def represents_def del: resolve.simps)
qed

lemma h_answer_Downloads:
  assumes sim: "sim hs s" and shape: "shape_of (PyDict (configuration s)) = schema"
    and pc: "pc s = Asking Downloads"
  shows "answered_in_place hs s Downloads v"
proof -
  from sim pc have hpc: "h_pc hs = Asking Downloads"
    and root: "h_vars hs Configuration = Some (HRef 0)"
    by (simp_all add: sim_def)
  from sim_dir [OF sim pc] obtain b where b: "h_vars hs Dir_Config = Some (HRef b)"
    "resolve (h_heap hs) (HRef 0) [''directories''] = Return b" by auto
  have target: "target Downloads = Some ([''directories''] @ [''subdirs''], ''downloads'')"
    by simp
  from h_assign_closed [OF sim shape pc target b, of v] obtain h' where h':
    "h_assign Dir_Config [''subdirs''] ''downloads'' v hs = hs\<lparr>h_heap := h'\<rparr>"
    "store (configuration s) ([''directories''] @ [''subdirs'']) ''downloads'' (PyStr v) =
       Return (tree_of record_depth h' 0)"
    "represents record_depth h' 0 (tree_of record_depth h' 0)"
    by blast
  from schema_store [OF shape target_schema [OF target], of v] h'(2)
  have shape': "shape_of (PyDict (tree_of record_depth h' 0)) = schema" by auto
  let ?hs = "hs\<lparr>h_heap := h', h_console := h_console hs @ [Heading ''Styles:'']\<rparr>"
  from bind_var_sim [of ?hs "tree_of record_depth h' 0" "''style''" "''font''" Style_Config]
    h'(3) shape' root
  obtain b' where
    "bind_var Style_Config Configuration ''style'' ?hs =
       ?hs\<lparr>h_vars := (h_vars hs)(Style_Config \<mapsto> HRef b')\<rparr>"
    "resolve h' (HRef 0) [''style''] = Return b'"
    by (auto simp: schema_eq)
  with hpc root h' show ?thesis
    unfolding answered_in_place_def
    by (intro exI [of _ h'] exI [of _ "(h_vars hs)(Style_Config \<mapsto> HRef b')"])
      (simp add: h_stmt_defs alias_of_def del: store.simps resolve.simps)
qed

lemma h_answer_dir:
  assumes sim: "sim hs s" and shape: "shape_of (PyDict (configuration s)) = schema"
    and pc: "pc s = Asking q"
    and q: "q \<in> {Base, Output, RasterImages, VectorImages, Sounds}"
  shows "answered_in_place hs s q v"
proof -
  note assign = h_answer_assign [OF sim shape pc]
  from q sim_dir [OF sim pc] obtain b where b: "h_vars hs Dir_Config = Some (HRef b)"
    "resolve (h_heap hs) (HRef 0) [''directories''] = Return b" by auto
  show ?thesis
  proof (cases q)
    case Base
    with b show ?thesis
      by (intro assign [of "[''directories'']" "[]"]) (simp_all add: alias_of_def)
  next
    case Output
    with b show ?thesis
      by (intro assign [of "[''directories'']" "[''subdirs'']"]) (simp_all add: alias_of_def)
  next
    case RasterImages
    with b show ?thesis
      by (intro assign [of "[''directories'']" "[''subdirs'']"]) (simp_all add: alias_of_def)
  next
    case VectorImages
    with b show ?thesis
      by (intro assign [of "[''directories'']" "[''subdirs'']"]) (simp_all add: alias_of_def)
  next
    case Sounds
    with b show ?thesis
      by (intro assign [of "[''directories'']" "[''subdirs'']"]) (simp_all add: alias_of_def)
  qed (use q in simp_all)
qed

lemma h_answer_style:
  assumes sim: "sim hs s" and shape: "shape_of (PyDict (configuration s)) = schema"
    and pc: "pc s = Asking q"
    and q: "q \<in> {TexTemplate, BackgroundColor}"
  shows "answered_in_place hs s q v"
proof -
  note assign = h_answer_assign [OF sim shape pc]
  from q sim_style [OF sim pc] obtain b where b: "h_vars hs Style_Config = Some (HRef b)"
    "resolve (h_heap hs) (HRef 0) [''style''] = Return b" by auto
  show ?thesis
  proof (cases q)
    case TexTemplate
    with b show ?thesis
      by (intro assign [of "[''style'']" "[]"]) (simp_all add: alias_of_def)
  next
    case BackgroundColor
    with b show ?thesis
      by (intro assign [of "[''style'']" "[]"]) (simp_all add: alias_of_def)
  qed (use q in simp_all)
qed

lemma h_answer_closed:
  assumes sim: "sim hs s" and shape: "shape_of (PyDict (configuration s)) = schema"
    and pc: "pc s = Asking q"
  shows "answered_in_place hs s q v"
proof -
  consider "q = Scope" | "q = Downloads" | "q = DefaultResolution"
    | "q \<in> {Base, Output, RasterImages, VectorImages, Sounds}"
    | "q \<in> {TexTemplate, BackgroundColor}"
    by (cases q) simp_all
  then show ?thesis
  proof cases
    case 1
    with sim shape pc show ?thesis by (simp add: h_answer_Scope)
  next
    case 2
    with sim shape pc show ?thesis by (simp add: h_answer_Downloads)
  next
    case 3
    from sim have "h_vars hs Configuration = Some (HRef 0)" by (simp add: sim_def)
    with 3 show ?thesis
      by (intro h_answer_assign [OF sim shape pc, of "[]" "[''camera_resolutions'']"])
        (simp_all add: alias_of_def)
  next
    case 4
    with sim shape pc show ?thesis by (rule h_answer_dir)
  next
    case 5
    with sim shape pc show ?thesis by (rule h_answer_style)
  qed
qed

lemma answer_sim:
  assumes sim: "sim hs s" and inv: "guide_inv e fs s" and pc: "pc s = Asking q"
  shows "sim (h_answer q v hs) (answer q v s)"
proof -
  from inv pc have shape: "shape_of (PyDict (configuration s)) = schema"
    and run: "\<not> crashed (pc s)"
    by (simp_all add: guide_inv_def pre_write_def)
  from answer_schema [OF shape run, where q = q and v = v] obtain c where
    c: "case target q of None \<Rightarrow> c = configuration s
        | Some (path, k) \<Rightarrow> store (configuration s) path k (PyStr v) = Return c"
    and eq: "answer q v s =
       s\<lparr>pc := next_pc q, configuration := c,
         scope := (if q = Scope then Some v else scope s), console := console s @ prints q\<rparr>"
    by blast
  from h_answer_closed [OF sim shape pc, of v, unfolded answered_in_place_def]
  obtain h' vars' where
    heq: "h_answer q v hs =
       hs\<lparr>h_pc := next_pc q, h_heap := h', h_vars := vars',
          h_scope := (if q = Scope then Some v else h_scope hs),
          h_console := h_console hs @ prints q\<rparr>"
    and tree: "case target q of None \<Rightarrow> tree_of record_depth h' 0 = configuration s
        | Some (path, k) \<Rightarrow>
            store (configuration s) path k (PyStr v) = Return (tree_of record_depth h' 0)"
    and rep: "represents record_depth h' 0 (tree_of record_depth h' 0)"
    and vars: "vars' Configuration = Some (HRef 0)"
      "list_all (\<lambda>(x, k). \<exists>b. vars' x = Some (HRef b) \<and> resolve h' (HRef 0) [k] = Return b)
         (alias_of (next_pc q))"
    by blast
  from c tree have "tree_of record_depth h' 0 = c" by (cases "target q") auto
  with rep vars sim show ?thesis
    unfolding eq heq by (simp add: sim_def del: resolve.simps)
qed

lemma cancel_sim:
  assumes "sim hs s" and "\<not> terminal (pc s)"
  shows "sim (h_cancel hs) (cancel s)"
proof -
  from assms have run: "\<not> crashed (pc s)" "\<not> crashed (h_pc hs)"
    by (auto simp: sim_def dest: terminal_crashed)
  with assms(1) show ?thesis
    by (simp add: sim_def h_cancel_def cancel_def h_stmt_defs stmt_defs alias_of_def)
qed

lemma h_remove_empty_value_sim:
  assumes var: "h_vars hs Configuration = Some (HRef 0)"
    and rep: "represents record_depth (h_heap hs) 0 c"
  shows "\<exists>h'. h_remove_empty_value Configuration hs = hs\<lparr>h_heap := h'\<rparr> \<and>
     represents record_depth h' 0 (remove_empty_value c)"
proof -
  from represents_prune [OF rep] obtain h' where
    h': "remove_empty_in_place record_depth (h_heap hs) 0 = Some (Return h')"
    and rep': "represents record_depth h' 0 (remove_empty_value c)"
    by blast
  from rep have "wf_heap (h_heap hs)" "bounded record_depth (h_heap hs) 0"
    by (simp_all add: represents_def)
  from remove_empty_in_place_le [OF this record_depth_le] h'
  have "remove_empty_in_place recursion_limit (h_heap hs) 0 = Some (Return h')" by simp
  with var rep' show ?thesis
    by (auto simp: h_remove_empty_value_def read_var_def)
qed

lemma h_yaml_dump_sim:
  assumes var: "h_vars hs Configuration = Some (HRef 0)"
    and rep: "represents record_depth (h_heap hs) 0 c"
  shows "h_yaml_dump fname Configuration hs = hs\<lparr>h_files := (h_files hs)(fname \<mapsto> PyDict c)\<rparr>"
proof -
  from rep have bd: "bounded record_depth (h_heap hs) 0"
    and tree: "tree_of record_depth (h_heap hs) 0 = c"
    by (simp_all add: represents_def)
  from bd record_depth_le have "bounded recursion_limit (h_heap hs) 0" by (rule bounded_le)
  moreover from tree_of_le [OF bd record_depth_le] tree
  have "tree_of recursion_limit (h_heap hs) 0 = c" by simp
  ultimately show ?thesis using var by (simp add: h_yaml_dump_def read_var_def)
qed

lemma write_config_sim:
  assumes sim: "sim hs s" and pc: "pc s = Confirming"
  shows "sim (h_write_config e hs) (write_config e s)"
proof -
  from sim pc have hpc: "h_pc hs = Confirming" and var: "h_vars hs Configuration = Some (HRef 0)"
    and rep: "represents record_depth (h_heap hs) 0 (configuration s)"
    and obs: "h_scope hs = scope s" "h_console hs = console s"
      "h_files hs = map_option PyDict \<circ> files s"
    by (simp_all add: sim_def)
  obtain fname prune where dec:
    "decide e (scope s) (path_exists (files s) (global_file_name e)) = (fname, prune)"
    by (cases "decide e (scope s) (path_exists (files s) (global_file_name e))")
  from obs(3) have ex: "path_exists (h_files hs) p = path_exists (files s) p" for p
    by (simp add: path_exists_def)
  show ?thesis
  proof (cases prune)
    case True
    from h_remove_empty_value_sim [OF var rep] obtain h' where
      h': "h_remove_empty_value Configuration hs = hs\<lparr>h_heap := h'\<rparr>"
      and rep': "represents record_depth h' 0 (remove_empty_value (configuration s))"
      by blast
    from h_yaml_dump_sim [of "hs\<lparr>h_heap := h'\<rparr>" "remove_empty_value (configuration s)" fname]
      var rep'
    have "h_yaml_dump fname Configuration (hs\<lparr>h_heap := h'\<rparr>) =
        hs\<lparr>h_heap := h', h_files := (h_files hs)(fname \<mapsto> PyDict (remove_empty_value (configuration s)))\<rparr>"
      by simp
    with True dec hpc pc var rep' obs h' show ?thesis
      by (simp add: sim_def h_write_config_def write_config_def ex h_stmt_defs stmt_defs
          alias_of_def fun_eq_iff)
  next
    case False
    from h_yaml_dump_sim [OF var rep, of fname] False dec hpc pc var rep obs show ?thesis
      by (simp add: sim_def h_write_config_def write_config_def ex h_stmt_defs stmt_defs
          alias_of_def fun_eq_iff)
  qed
qed

lemma step_sim:
  assumes "sim hs s" and "guide_inv e fs s"
  shows "rel_option sim (h_step e hs ev) (step e s ev)"
proof -
  from assms(1) have pc: "h_pc hs = pc s" by (simp add: sim_def)
  show ?thesis
  proof (cases ev)
    case KeyboardInterrupt
    with assms pc show ?thesis by (simp add: cancel_sim)
  next
    case (Reply v)
    with assms pc show ?thesis by (cases "pc s") (simp_all add: answer_sim)
  next
    case (Confirm b)
    with assms pc show ?thesis
      by (cases "pc s") (simp_all add: write_config_sim cancel_sim)
  qed
qed

lemma run_sim:
  "sim hs s \<Longrightarrow> reachable e fs s \<Longrightarrow> rel_option sim (h_run e hs evs) (run e s evs)"
proof (induction evs arbitrary: hs s)
  case Nil
  then show ?case by simp
next
  case (Cons ev evs)
  from step_sim [OF Cons.prems(1) reachable_inv [OF Cons.prems(2)], of ev]
  show ?case
  proof (cases rule: option.rel_cases)
    case None
    then show ?thesis by simp
  next
    case (Some hs' s')
    from Cons.prems(2) Some(2) have "reachable e fs s'" by (rule reach_step)
    with Some show ?thesis by (simp add: Cons.IH)
  qed
qed

lemma sim_start: "sim (h_start fs) (start fs)"
  by (simp add: sim_def h_start_def start_def represents_initial alias_of_def)

lemma init_sim:
  "rel_option sim (init_customization_in_place e fs evs) (init_customization e fs evs)"
  unfolding init_customization_in_place_def init_customization_def
  by (rule run_sim [OF sim_start reach_start])

lemma in_place_confirmed:
  "\<exists>hs. init_customization_in_place e fs (script a @ [Confirm True]) = Some hs \<and>
     sim hs (write_config e (confirming fs a))"
  using init_sim [of e fs "script a @ [Confirm True]"]
  by (auto simp: init_customization_confirmed option_rel_Some2)

section \<open>The guide on objects and the guide on values\<close>

text \<open>
  C2. The guide on values is an exact abstraction of the guide on objects: for every
  sequence of events, either both machines refuse it, or both accept it and end in
  states related by \<open>sim\<close>, that is, at the same program point, with the same scope,
  the same console output and the same files, and with a heap that represents the record
  of the machine on values.
\<close>
theorem init_customization_in_place_refines:
  "rel_option sim (init_customization_in_place e fs evs) (init_customization e fs evs)"
  by (rule init_sim)

text \<open>
  C10. The guide on objects raises no exception: every variable is bound before it is
  read, every subscript finds its key, every alias points to a dictionary, and the
  recursion limit is enough for the pruning, so no run ends in a crashed state; its
  outcome is the outcome of the guide on values.
\<close>
theorem init_customization_in_place_safe:
  assumes "init_customization_in_place e fs evs = Some hs"
  shows "\<not> crashed (h_pc hs) \<and>
     (\<exists>s. init_customization e fs evs = Some s \<and> h_pc hs = pc s \<and>
        h_console hs = console s \<and> h_files hs = map_option PyDict \<circ> files s \<and>
        tree_of record_depth (h_heap hs) 0 = configuration s)"
proof -
  from init_sim [of e fs evs] assms obtain s where
    s: "init_customization e fs evs = Some s" and sim: "sim hs s"
    by (auto simp: option_rel_Some1)
  from s have "guide_inv e fs s"
    by (intro reachable_inv init_customization_reachable)
  then have "\<not> crashed (pc s)" by (cases "pc s") (simp_all add: guide_inv_def)
  with s sim show ?thesis by (auto simp: sim_def represents_def)
qed

theorem init_customization_in_place_safe_witness:
  "\<exists>hs. init_customization_in_place example_env Map.empty (script defaults @ [Confirm True]) =
       Some hs \<and>
     \<not> crashed (h_pc hs) \<and>
     h_files hs ''/home/user/scenes/custom_config.yml'' = Some (PyDict (answered defaults))"
proof -
  from in_place_confirmed [of example_env Map.empty defaults] obtain hs where
    hs: "init_customization_in_place example_env Map.empty (script defaults @ [Confirm True]) =
       Some hs"
    by blast
  from init_customization_in_place_safe [OF hs] hs show ?thesis
    by (auto simp: init_customization_confirmed example_written)
qed

end
