(* ===== verification/Spec2Isabelle.thy ===== *)
theory Spec2Isabelle
  imports Wizard_Heap
begin

text \<open>
  \<^bold>\<open>The program.\<close> \<^verbatim>\<open>src/manimlib/utils/init_config.py\<close> is the configuration guide of
  manim. It has three functions. \<^verbatim>\<open>get_manim_dir\<close> asks the import system where the
  package is installed. \<^verbatim>\<open>remove_empty_value\<close> walks a nested dictionary and removes, in
  place, every key whose value is the empty string. \<^verbatim>\<open>init_customization\<close> builds the
  default configuration as a dictionary literal, asks ten questions on the terminal
  (the scope, six directories, two style settings, the default quality), assigns each
  answer to a leaf of the dictionary, asks for a confirmation, and then writes the
  dictionary as YAML: to \<^verbatim>\<open><manim_dir>/manimlib/default_config.yml\<close> when the scope is
  \<^verbatim>\<open>global\<close>, and otherwise to \<^verbatim>\<open><cwd>/custom_config.yml\<close>, pruned by
  \<^verbatim>\<open>remove_empty_value\<close> when a file exists at the global path. Declining the
  confirmation, or a \<^verbatim>\<open>KeyboardInterrupt\<close> at any prompt, prints an exit message and
  writes nothing.

  \<^bold>\<open>The theories\<close>, in the order of their imports.

  \<^item> \<open>Prelude\<close>: the exceptions of the modelled code (\<open>py_error\<close>), results as sums,
    sequencing of statements that may raise (\<open>and_then\<close>), a \<^verbatim>\<open>for\<close> loop over a list
    whose body may raise or exceed the recursion depth (\<open>for_each_comp\<close>), and the
    shared facts on association lists.
  \<^item> \<open>Py_Value\<close>: the values the dictionary holds (\<open>pyval\<close>: strings, booleans, integers
    and dictionaries, the types that occur in the literal of lines 36 to 67; the
    annotation \<^verbatim>\<open>dict[str, Any]\<close> of line 27 admits more, which the routine would
    leave alone like any other leaf) and Python's dictionary operations as the source
    uses them. A
    dictionary is an association list in insertion order; \<open>wf_dict\<close> says that no
    dictionary of the tree holds a key twice. \<open>getitem\<close> is \<^verbatim>\<open>d[k]\<close>, \<open>setitem\<close> is
    \<^verbatim>\<open>d[k] = v\<close>, \<open>pop\<close> is \<^verbatim>\<open>d.pop(k)\<close>, \<open>keys\<close> is \<^verbatim>\<open>list(d.keys())\<close>, \<open>store\<close> is an
    assignment behind a chain of subscripts such as
    \<^verbatim>\<open>dir_config["subdirs"]["output"] = ...\<close>. The lemmas give each operation on every
    branch (\<^verbatim>\<open>KeyError\<close> and \<^verbatim>\<open>TypeError\<close> included), the round trip of \<open>store\<close> and
    \<open>lookup\<close>, and that writing a value of the same type keeps the \<open>shape_of\<close> the
    dictionary and its well-formedness. \<open>leaves\<close> lists the paths to the leaves of a
    dictionary.
  \<^item> \<open>Remove_Empty\<close>: \<^verbatim>\<open>remove_empty_value\<close> (lines 27 to 32), twice: as the recursion
    \<open>remove_empty_value\<close> over the entries, which is the reference, and as the loop of
    the source, \<open>remove_empty_loop\<close>, whose body \<open>visit\<close> performs the lookups, the
    \<^verbatim>\<open>pop\<close> and the call of the routine itself on a nested dictionary, with the
    recursion depth as fuel. The lemmas show that the loop returns exactly when the
    fuel is at least the \<open>depth\<close> of the nesting, that it then never raises and
    computes the recursion at every level, that the result holds no empty string at any
    depth, that the routine is idempotent, keeps nested dictionaries (also empty ones)
    and the order of the keys, and what \<open>lookup\<close> finds afterwards along any path.
  \<^item> \<open>Heap\<close>: the same routine on a heap of dictionary objects, as Python runs it:
    entries hold values or references, \<open>visit_in_place\<close> and \<open>remove_empty_in_place\<close>
    change the object at an address, and the recursion depth is fuel. The theorems
    give the heap after the call exactly (every object reachable from the argument
    loses its empty strings, every other object is untouched, also when objects are
    shared), show that the call returns if and only if the nesting below the argument
    is no deeper than the fuel (never on a dictionary that contains itself), and that
    the tree the heap represents afterwards is \<open>remove_empty_value\<close> of the tree it
    represented before, and that the routine in place and \<open>remove_empty_loop\<close> on the
    tree agree for every recursion depth. \<open>resolve\<close> and \<open>store_in_place\<close> are a chain of subscripts
    and an assignment behind it on objects; on a heap that represents a tree
    (\<open>represents\<close>: distinct keys, bounded nesting, no object held twice) the
    assignment refines \<open>store\<close>, and on a shared object it does not.
  \<^item> \<open>Schema\<close>: the dictionary literal of lines 36 to 67 (\<open>initial_configuration\<close>), its
    keys and its shape (\<open>schema\<close>).
  \<^item> \<open>Wizard\<close>: \<^verbatim>\<open>init_customization\<close> (lines 35 to 164) as a machine. The state
    (\<open>wstate\<close>) holds the program point, the local variables \<^verbatim>\<open>configuration\<close> and
    \<^verbatim>\<open>scope\<close>, the messages printed so far and the files on disk; the environment
    (\<open>env\<close>) holds what \<^verbatim>\<open>get_manim_dir()\<close> and \<^verbatim>\<open>os.getcwd()\<close> return. An \<open>event\<close> is
    what \<^verbatim>\<open>Prompt.ask\<close> or \<^verbatim>\<open>Confirm.ask\<close> returns or raises. \<open>answer\<close> has one
    equation per prompt, with the statements that follow it up to the next prompt;
    \<open>write_config\<close> is the code after the confirmation (\<open>decide\<close> is its branch on the
    scope and on \<^verbatim>\<open>os.path.exists\<close>, \<open>yaml_dump\<close> the write); \<open>cancel\<close> is the
    \<^verbatim>\<open>except\<close> clause; \<open>step\<close> dispatches on the event, \<open>run\<close> folds it over a list of
    events, and \<open>init_customization\<close> runs from the state \<open>start\<close>. An exception other
    than \<^verbatim>\<open>KeyboardInterrupt\<close> would leave the function: it is the program point
    \<open>Crashed\<close>. \<open>reachable\<close> is the set of states of all runs.
  \<^item> \<open>Wizard_Run\<close>: complete runs in closed form. \<open>script a\<close> is the list of events of a
    user who answers question \<open>q\<close> with \<open>a q\<close>, \<open>answered a\<close> the record after the last
    prompt, \<open>document e fs a\<close> the record that is written. The lemmas evaluate the
    machine on a script; the theorems are stated of the runs themselves: which file is
    written and what it holds, when the record is pruned, that every answer is in the
    file at its leaf, which label the quality prompt leaves in the file, and when the
    file repeats the initial record. Scenarios A and B of the specification are the
    instances that accompany the last and the second of these.
  \<^item> \<open>Wizard_Inv\<close>: the invariant \<open>guide_inv\<close> of the machine, by rule induction over
    \<open>reachable\<close>: nothing is written before the confirmation, no state is \<open>Crashed\<close>,
    the record keeps the shape of the initial record until it is written, one file is
    written at most; the record of every reachable state in closed form, and with it
    that the leaves no prompt assigns (\<open>untouched\<close>) keep their initial values; the
    measure \<open>remaining\<close> and termination; the state machine of the specification
    (\<open>phase\<close>, \<open>phase_step\<close>) and the refinement of it by \<open>step\<close>.
  \<^item> \<open>Wizard_Heap\<close>: \<^verbatim>\<open>init_customization\<close> once more, with the dictionaries as
    objects of the heap and the local variables \<^verbatim>\<open>configuration\<close>, \<^verbatim>\<open>dir_config\<close>,
    \<^verbatim>\<open>style_config\<close> as references (\<open>hstate\<close>, \<open>bind_var\<close>, \<open>h_assign\<close>,
    \<open>h_answer\<close>, \<open>h_write_config\<close>, \<open>h_step\<close>, \<open>init_customization_in_place\<close>). The
    relation \<open>sim\<close> ties its states to those of the machine of \<open>Wizard\<close>; every step
    is simulated, so what the theories above prove of the guide on values holds of the
    guide as Python runs it.
  \<^item> This theory: the properties that need the pruning routine, the runs and the
    invariant together.

  \<^bold>\<open>Bounds.\<close> The reference \<open>remove_empty_value\<close> is a structural recursion over the
  nested dictionary. The loop of the source recurses on the values it finds while it
  runs, so \<open>remove_empty_loop\<close> takes the recursion depth as fuel, and
  \<open>remove_empty_loop_correct\<close> shows that fuel \<open>n\<close> is enough exactly when
  \<open>depth d \<le> n\<close>; the depth of the argument always is. On the heap the recursion
  follows references and need not end, so \<open>remove_empty_in_place\<close> takes fuel as well;
  \<open>remove_empty_in_place_correct\<close> shows that fuel \<open>n\<close> is enough exactly when no chain
  of nested dictionaries below the argument is longer than \<open>n\<close>. In both models the
  value \<open>None\<close> stands for Python's \<^verbatim>\<open>RecursionError\<close>, without the partly pruned
  dictionary that Python leaves behind in that case. The record of the
  guide needs three (\<open>record_depth\<close>), and the guide on objects runs the routine with
  the recursion limit of the interpreter. The guide asks ten questions and one confirmation, so every run
  takes at most eleven events (\<open>guide_terminates\<close>), and from every waiting state the
  remaining answers lead to the written state (\<open>guide_can_finish\<close>). Strings, keys and
  integers are unbounded, as in Python.

  \<^bold>\<open>Not modelled.\<close> \<^verbatim>\<open>get_manim_dir\<close> only calls \<^verbatim>\<open>importlib\<close>, \<^verbatim>\<open>inspect\<close> and
  \<^verbatim>\<open>os.path\<close>; its result is the field \<open>manim_dir\<close> of the environment. The prompt
  library \<^verbatim>\<open>rich\<close> is outside the sources: the model starts from the value a prompt
  returns, so the re-prompting on an invalid choice and the substitution of the default
  for an empty input are assumptions on the events (\<open>valid_answers\<close>), and the texts of
  the prompts are left out. An interrupt is an event at a prompt only: a
  \<^verbatim>\<open>KeyboardInterrupt\<close> while the file is being written or a message printed (lines
  157 to 161), and an \<^verbatim>\<open>EOFError\<close> of a prompt, are outside the model.
  \<^verbatim>\<open>yaml.dump\<close> and \<^verbatim>\<open>open\<close> are library calls: a file's content is the dictionary
  dumped into it, so the order in which the serialiser emits the keys and the anchors
  it would emit for a shared or cyclic object are not represented, and a failing
  \<^verbatim>\<open>open\<close> is outside the model. \<^verbatim>\<open>os.path.exists\<close> is read off the file map
  (\<open>path_exists\<close>), which knows files and no directories. \<^verbatim>\<open>os.path.join\<close> is
  modelled from its documentation for the case the code meets, a first argument
  without a trailing separator and a relative second argument, on a system whose
  separator is the slash (\<open>path_join\<close>). The recursion limit of the interpreter is taken as 1000
  (\<open>recursion_limit\<close>, the default of \<^verbatim>\<open>sys.getrecursionlimit\<close>); the proofs only use
  that it is at least the depth of the record, three.
\<close>

section \<open>The written file and the pruning routine together\<close>

text \<open>
  C26. A local file written beside an existing global file holds no blank entry: when the
  scope is not \<open>global\<close> and a file exists at the global path, the record in
  \<open><cwd>/custom_config.yml\<close> has no empty string at any depth, so it overrides only what
  the user filled in.
\<close>
theorem local_override_has_no_blank:
  assumes "init_customization e fs (script a @ [Confirm True]) = Some s"
    and "a Scope \<noteq> ''global''" and "fs (global_file_name e) \<noteq> None"
  shows "files s (local_file_name e) = Some (configuration s) \<and> no_empty_str (configuration s)"
  using assms remove_empty_value_no_empty_str_aux [of "answered a"]
  by (auto simp: init_customization_confirmed write_config_confirming document_cases
      file_name_def)

theorem local_override_has_no_blank_witness:
  "(\<exists>s. init_customization example_env
        [''/opt/manim/manimlib/default_config.yml'' \<mapsto> initial_configuration]
        (script defaults @ [Confirm True]) = Some s \<and>
      files s ''/home/user/scenes/custom_config.yml'' = Some (configuration s) \<and>
      no_empty_str (configuration s))"
proof -
  let ?fs = "[''/opt/manim/manimlib/default_config.yml'' \<mapsto> initial_configuration]"
  have run: "init_customization example_env ?fs (script defaults @ [Confirm True]) =
      Some (write_config example_env (confirming ?fs defaults))"
    by (rule init_customization_confirmed)
  have "defaults Scope \<noteq> ''global''" by (simp add: defaults_def)
  moreover have "?fs (global_file_name example_env) \<noteq> None"
    by (simp add: global_file_name_def path_join_def example_env_def)
  ultimately show ?thesis
    using local_override_has_no_blank [OF run] run
    by (auto simp: local_file_name_def path_join_def example_env_def)
qed

text \<open>
  C30. A file written without pruning is self-sufficient: with scope \<open>global\<close>, or with no
  file at the global path, the written record has every key of the initial record, at
  every level and in the same order, with leaves of the same types.
\<close>
theorem unpruned_file_is_complete:
  assumes "init_customization e fs (script a @ [Confirm True]) = Some s"
    and "a Scope = ''global'' \<or> fs (global_file_name e) = None"
  shows "shape_of (PyDict (configuration s)) = shape_of (PyDict initial_configuration)"
  using assms
  by (auto simp: init_customization_confirmed write_config_confirming document_cases
      answered_def initial_configuration_def)

theorem unpruned_file_is_complete_witness:
  "\<exists>s. init_customization example_env Map.empty
        (script (defaults(Scope := ''global'')) @ [Confirm True]) = Some s \<and>
      shape_of (PyDict (configuration s)) = shape_of (PyDict initial_configuration)"
proof -
  let ?a = "defaults(Scope := ''global'')"
  have run: "init_customization example_env Map.empty (script ?a @ [Confirm True]) =
      Some (write_config example_env (confirming Map.empty ?a))"
    by (rule init_customization_confirmed)
  from unpruned_file_is_complete [OF run] run show ?thesis by simp
qed

end
